(* ===== verification/Prelude.thy ===== *)
theory Prelude
  imports Main "HOL-Library.List_Lexorder" "HOL-Library.Char_ord"
    "HOL-Library.Product_Lexorder" "HOL-Library.Multiset" "HOL-Library.AList"
begin

text \<open>
  Shared vocabulary of the blinkdb model: JavaScript values as they appear in
  records, filters and index keys; JavaScript's relational operators on them;
  the error kinds the engine throws; the shape of a stateful result; and the
  generic list lemmas (array \<open>splice\<close>, \<open>indexOf\<close>/\<open>splice\<close> removal) that the
  component theories share.
\<close>

named_theorems js_defs "unfolding rules of the JavaScript value semantics"
named_theorems list_model_simps "rewrite rules for the array primitives of the model"
named_theorems bt_simps "characteristic equations of the ordered index operations"
named_theorems inv_intros "preservation rules of the table invariant"

section \<open>JavaScript values\<close>

text \<open>
  Record properties, primary keys and index keys are JavaScript primitives.
  Numbers are modelled as integers (the engine only compares and adds them);
  \<open>undefined\<close> is \<open>JUndef\<close>, which is also what reading an absent property yields.
\<close>

datatype jsval = JUndef | JNull | JBool bool | JNum int | JStr string

text \<open>
  The ordered indexes (the sorted-btree library) order keys by a total order.
  We take the one that groups values by kind and orders numbers numerically and
  strings lexicographically; on values of one kind it is JavaScript's order.
\<close>

fun jsval_rank :: "jsval \<Rightarrow> nat \<times> int \<times> string" where
  "jsval_rank JUndef = (0, 0, [])"
| "jsval_rank JNull = (1, 0, [])"
| "jsval_rank (JBool b) = (2, if b then 1 else 0, [])"
| "jsval_rank (JNum n) = (3, n, [])"
| "jsval_rank (JStr s) = (4, 0, s)"

instantiation jsval :: linorder
begin

definition less_eq_jsval :: "jsval \<Rightarrow> jsval \<Rightarrow> bool" where
  "less_eq_jsval a b \<longleftrightarrow> jsval_rank a \<le> jsval_rank b"

definition less_jsval :: "jsval \<Rightarrow> jsval \<Rightarrow> bool" where
  "less_jsval a b \<longleftrightarrow> jsval_rank a < jsval_rank b"

instance
proof
  fix a b c :: jsval
  show "a < b \<longleftrightarrow> a \<le> b \<and> \<not> b \<le> a"
    by (auto simp: less_eq_jsval_def less_jsval_def)
  show "a \<le> a" by (simp add: less_eq_jsval_def)
  show "a \<le> b \<Longrightarrow> b \<le> c \<Longrightarrow> a \<le> c"
    by (auto simp: less_eq_jsval_def)
  show "a \<le> b \<Longrightarrow> b \<le> a \<Longrightarrow> a = b"
    by (cases a; cases b) (auto simp: less_eq_jsval_def split: if_splits)
  show "a \<le> b \<or> b \<le> a"
    by (auto simp: less_eq_jsval_def)
qed

end

subsection \<open>Relational operators\<close>

text \<open>
  JavaScript's \<open><\<close> and \<open><=\<close> (the IsLessThan algorithm): two strings compare by
  code units; otherwise both sides are converted to numbers (\<open>null\<close> is 0, booleans
  are 0 and 1, \<open>undefined\<close> is NaN) and any comparison with NaN is false.
  Strings on the mixed path are treated as NaN (numeric strings are not modelled).
\<close>

fun js_num :: "jsval \<Rightarrow> int option" where
  "js_num JUndef = None"
| "js_num JNull = Some 0"
| "js_num (JBool b) = Some (if b then 1 else 0)"
| "js_num (JNum n) = Some n"
| "js_num (JStr s) = None"

fun js_lt :: "jsval \<Rightarrow> jsval \<Rightarrow> bool" where
  "js_lt (JStr x) (JStr y) = (x < y)"
| "js_lt a b = (case (js_num a, js_num b) of (Some x, Some y) \<Rightarrow> x < y | _ \<Rightarrow> False)"

fun js_le :: "jsval \<Rightarrow> jsval \<Rightarrow> bool" where
  "js_le (JStr x) (JStr y) = (x \<le> y)"
| "js_le a b = (case (js_num a, js_num b) of (Some x, Some y) \<Rightarrow> x \<le> y | _ \<Rightarrow> False)"

text \<open>
  The spec leaves range matching of values of different types undefined; the
  ordinal pairs on which the engine promises a meaning are numbers against numbers
  and strings against strings.
\<close>

fun same_ordinal :: "jsval \<Rightarrow> jsval \<Rightarrow> bool" where
  "same_ordinal (JNum _) (JNum _) = True"
| "same_ordinal (JStr _) (JStr _) = True"
| "same_ordinal _ _ = False"

subsection \<open>Objects\<close>

text \<open>
  A record (and a diff, and a matcher object) is a JavaScript object with primitive
  properties: an association list in property insertion order, as \<open>for ... in\<close>
  enumerates it. Reading an absent property yields \<open>undefined\<close>; assigning one
  keeps the position of an existing property and appends a new one
  (\<open>AList.update\<close>).
\<close>

type_synonym obj = "(string \<times> jsval) list"

definition obj_get :: "obj \<Rightarrow> string \<Rightarrow> jsval" where
  "obj_get ob k = (case map_of ob k of None \<Rightarrow> JUndef | Some v \<Rightarrow> v)"

definition obj_has :: "obj \<Rightarrow> string \<Rightarrow> bool" where
  "obj_has ob k \<longleftrightarrow> map_of ob k \<noteq> None"

section \<open>Errors and results\<close>

text \<open>
  The typed errors of \<open>core/errors.ts\<close>, the untyped \<open>Error\<close> thrown by
  \<open>update.ts\<close> (distinguished only by its message), and the \<open>TypeError\<close>s the
  JavaScript runtime raises on the paths the code does not guard.
\<close>

datatype error =
    InvalidPrimaryKey jsval
  | ItemNotFound jsval
  | PrimaryKeyAlreadyInUse jsval
  | PrimaryKeyCannotBeModified jsval
  | UntypedError string jsval
  | TypeError string

text \<open>
  A mutation of the engine changes the table in place and may throw part-way; the
  model returns the value or the error together with the state reached.
\<close>

type_synonym ('a, 's) res = "(error + 'a) \<times> 's"

section \<open>Array primitives\<close>

text \<open>\<open>xs.splice(i, 1)\<close>: removes the element at \<open>i\<close>; out of range it removes nothing.\<close>

definition splice1 :: "nat \<Rightarrow> 'a list \<Rightarrow> 'a list" where
  "splice1 i xs = take i xs @ drop (Suc i) xs"

text \<open>
  \<open>i = xs.indexOf(x); if (i !== -1) xs.splice(i, 1)\<close> removes the first occurrence,
  which is the library's \<open>remove1\<close>.
\<close>

fun index_of :: "'a \<Rightarrow> 'a list \<Rightarrow> int" where
  "index_of x [] = -1"
| "index_of x (y # ys) = (if x = y then 0 else (let i = index_of x ys in if i = -1 then -1 else i + 1))"

definition index_of_splice :: "'a \<Rightarrow> 'a list \<Rightarrow> 'a list" where
  "index_of_splice x xs = (let i = index_of x xs in if i \<noteq> -1 then splice1 (nat i) xs else xs)"

section \<open>Lemmas\<close>

lemma js_lt_same_ordinal [simp]: "same_ordinal a b \<Longrightarrow> js_lt a b = (a < b)"
  by (cases a; cases b) (auto simp: less_jsval_def)

lemma js_le_same_ordinal [simp]: "same_ordinal a b \<Longrightarrow> js_le a b = (a \<le> b)"
  by (cases a; cases b) (auto simp: less_eq_jsval_def)

lemma js_lt_undef [simp]: "\<not> js_lt JUndef b" "\<not> js_lt a JUndef"
  by (cases b; simp) (cases a; simp)

lemma js_le_undef [simp]: "\<not> js_le JUndef b" "\<not> js_le a JUndef"
  by (cases b; simp) (cases a; simp)

lemma same_ordinal_sym: "same_ordinal a b \<Longrightarrow> same_ordinal b a"
  by (cases a; cases b) auto

lemma obj_get_update [simp]: "obj_get (AList.update k v ob) k' = (if k' = k then v else obj_get ob k')"
  by (simp add: obj_get_def update_conv')

lemma obj_get_Nil [simp]: "obj_get [] k = JUndef"
  by (simp add: obj_get_def)

lemma obj_get_Cons [simp]: "obj_get ((a, b) # ob) k = (if k = a then b else obj_get ob k)"
  by (simp add: obj_get_def)

lemma obj_has_Nil [simp]: "\<not> obj_has [] k"
  by (simp add: obj_has_def)

lemma obj_has_Cons [simp]: "obj_has ((a, b) # ob) k \<longleftrightarrow> k = a \<or> obj_has ob k"
  by (simp add: obj_has_def)

lemma splice1_out_of_range [list_model_simps]: "length xs \<le> i \<Longrightarrow> splice1 i xs = xs"
  by (simp add: splice1_def)

lemma splice1_Cons_0 [list_model_simps]: "splice1 0 (x # xs) = xs"
  by (simp add: splice1_def)

lemma splice1_Cons_Suc [list_model_simps]: "splice1 (Suc i) (x # xs) = x # splice1 i xs"
  by (simp add: splice1_def)

lemma splice1_Nil [list_model_simps]: "splice1 i [] = []"
  by (simp add: splice1_def)

lemma length_splice1: "i < length xs \<Longrightarrow> length (splice1 i xs) = length xs - 1"
  by (simp add: splice1_def)

lemma set_splice1: "set (splice1 i xs) \<subseteq> set xs"
  by (auto simp: splice1_def dest: in_set_takeD in_set_dropD)

lemma index_of_range: "index_of x xs = -1 \<or> 0 \<le> index_of x xs"
  by (induction xs) (auto simp: Let_def)

lemma index_of_splice_remove1 [simp]: "index_of_splice x xs = remove1 x xs"
proof (induction xs)
  case Nil
  then show ?case by (simp add: index_of_splice_def splice1_def)
next
  case (Cons y ys)
  have "index_of x ys \<noteq> -1 \<Longrightarrow> nat (index_of x ys + 1) = Suc (nat (index_of x ys))"
    using index_of_range [of x ys] by auto
  with Cons show ?case
    by (auto simp: index_of_splice_def Let_def list_model_simps)
qed

lemma count_remove1 [simp]:
  "count (mset (remove1 x xs)) y = (if x = y then count (mset xs) y - 1 else count (mset xs) y)"
  by simp

end
