(* ===== verification/OrderedIndex.thy ===== *)
theory OrderedIndex
  imports Prelude
begin

text \<open>
  The ordered index (the sorted-btree \<open>BTree\<close> the engine stores its primary and
  secondary indexes in; the library is not part of the repository, so it is
  modelled from the spec, section 4.1). A tree is the association list of its
  entries in ascending key order: \<open>get\<close>, \<open>set\<close>, \<open>delete\<close>, \<open>valuesArray\<close>,
  \<open>size\<close> and blinkdb's \<open>totalItemSize\<close>. Its well-formedness is strict
  sortedness of the keys; the lemmas give the map each operation denotes
  (a refinement of \<open>'k \<rightharpoonup> 'v\<close>) and that well-formedness is kept.
\<close>

type_synonym ('k, 'v) btree = "('k \<times> 'v) list"

definition bt_wf :: "('k::linorder, 'v) btree \<Rightarrow> bool" where
  "bt_wf t \<longleftrightarrow> sorted_wrt (<) (map fst t)"

definition bt_get :: "('k, 'v) btree \<Rightarrow> 'k \<Rightarrow> 'v option" where
  "bt_get t k = map_of t k"

fun bt_set :: "'k::linorder \<Rightarrow> 'v \<Rightarrow> ('k, 'v) btree \<Rightarrow> ('k, 'v) btree" where
  "bt_set k v [] = [(k, v)]"
| "bt_set k v (e # es) =
     (if fst e < k then e # bt_set k v es
      else if fst e = k then (k, v) # es
      else (k, v) # e # es)"

fun bt_delete :: "'k \<Rightarrow> ('k, 'v) btree \<Rightarrow> ('k, 'v) btree" where
  "bt_delete k [] = []"
| "bt_delete k (e # es) = (if fst e = k then es else e # bt_delete k es)"

definition bt_keys :: "('k, 'v) btree \<Rightarrow> 'k list" where
  "bt_keys t = map fst t"

definition bt_values :: "('k, 'v) btree \<Rightarrow> 'v list" where
  "bt_values t = map snd t"

definition bt_size :: "('k, 'v) btree \<Rightarrow> nat" where
  "bt_size t = length t"

definition bt_total_item_size :: "('k, 'a list) btree \<Rightarrow> nat" where
  "bt_total_item_size t = sum_list (map (length \<circ> snd) t)"

text \<open>A secondary index's bucket for a key; an absent key has no records.\<close>

definition bucket :: "('k, 'a list) btree \<Rightarrow> 'k \<Rightarrow> 'a list" where
  "bucket t k = (case bt_get t k of None \<Rightarrow> [] | Some b \<Rightarrow> b)"

section \<open>The map an index denotes\<close>

lemma bt_get_Nil [simp, bt_simps]: "bt_get [] k = None"
  by (simp add: bt_get_def)

lemma bt_get_set [simp, bt_simps]: "bt_get (bt_set k v t) = (bt_get t)(k \<mapsto> v)"
  by (induction t) (auto simp: bt_get_def fun_eq_iff)

lemma bt_get_delete [simp, bt_simps]:
  "distinct (bt_keys t) \<Longrightarrow> bt_get (bt_delete k t) = (bt_get t)(k := None)"
  by (induction t) (auto simp: bt_get_def bt_keys_def fun_eq_iff map_of_eq_None_iff)

lemma bt_wf_distinct: "bt_wf t \<Longrightarrow> distinct (bt_keys t)"
  by (simp add: bt_wf_def bt_keys_def strict_sorted_iff)

lemma set_bt_set: "set (bt_set k v t) \<subseteq> insert (k, v) (set t)"
  by (induction t) auto

lemma set_bt_keys_set [simp]: "set (bt_keys (bt_set k v t)) = insert k (set (bt_keys t))"
  by (induction t) (auto simp: bt_keys_def)

lemma set_bt_delete: "set (bt_delete k t) \<subseteq> set t"
  by (induction t) auto

lemma bt_wf_set [intro]: "bt_wf t \<Longrightarrow> bt_wf (bt_set k v t)"
proof (induction t)
  case Nil
  then show ?case by (simp add: bt_wf_def)
next
  case (Cons e es)
  have "\<forall>x \<in> set (map fst es). fst e < x" and "bt_wf es"
    using Cons.prems by (auto simp: bt_wf_def)
  moreover have "set (map fst (bt_set k v es)) = insert k (set (map fst es))"
    using set_bt_keys_set [of k v es] by (simp add: bt_keys_def)
  ultimately show ?case
    using Cons.IH by (auto simp: bt_wf_def)
qed

lemma bt_wf_delete [intro]: "bt_wf t \<Longrightarrow> bt_wf (bt_delete k t)"
proof (induction t)
  case Nil
  then show ?case by simp
next
  case (Cons e es)
  then show ?case
    using set_bt_delete [of k es] by (auto simp: bt_wf_def)
qed

lemma bt_get_Some_iff:
  "bt_wf t \<Longrightarrow> bt_get t k = Some v \<longleftrightarrow> (k, v) \<in> set t"
  using bt_wf_distinct [of t] by (simp add: bt_get_def bt_keys_def)

lemma set_bt_values:
  "bt_wf t \<Longrightarrow> set (bt_values t) = {v. \<exists>k. bt_get t k = Some v}"
  by (auto simp: bt_values_def bt_get_Some_iff) (force simp: bt_get_Some_iff)

lemma bt_keys_dom: "k \<in> set (bt_keys t) \<longleftrightarrow> bt_get t k \<noteq> None"
  by (simp add: bt_keys_def bt_get_def map_of_eq_None_iff)

lemma bt_size_set:
  "bt_wf t \<Longrightarrow> bt_size (bt_set k v t) = (if bt_get t k = None then Suc (bt_size t) else bt_size t)"
  by (induction t) (force simp: bt_size_def bt_get_def bt_wf_def map_of_eq_None_iff)+

lemma bucket_set [simp, bt_simps]:
  "bucket (bt_set k b t) k' = (if k' = k then b else bucket t k')"
  by (simp add: bucket_def)

lemma bucket_Nil [simp, bt_simps]: "bucket [] k = []"
  by (simp add: bucket_def)

end
