(* ===== verification/Table.thy ===== *)
theory Table
  imports OrderedIndex
begin

text \<open>
  The state of one table (\<open>table[BlinkKey]\<close>): its name, the primary-key property
  (\<open>options.primary\<close>), the primary index from key to record
  (\<open>storage.primary\<close>), the secondary indexes in declaration order
  (\<open>storage.indexes\<close>, property name to a tree of buckets) and the events
  dispatched so far (\<open>events.onInsert\<close>, \<open>onUpdate\<close>, \<open>onRemove\<close>).

  Records are objects shared by reference between the primary index and the
  buckets, and mutated in place by \<open>update\<close>. The model makes the sharing explicit:
  the primary index is the store, a bucket holds the primary keys of its records
  (a record's primary key never changes, so it is a stable reference), and
  dereferencing goes through the store. The invariant is the spec's (section 3):
  every record is stored under its own primary key, and for every secondary index
  on \<open>p\<close> each record occurs exactly once in the bucket of its current \<open>p\<close> and in
  no other; the executable definition is proved equal to that statement.
\<close>

type_synonym entity = obj
type_synonym diff = obj
type_synonym secondary = "(jsval, jsval list) btree"

datatype event =
    InsertEvent "entity list"
  | UpdateEvent "(entity \<times> entity) list"
  | RemoveEvent "entity list"

record table =
  tname :: string
  tpk :: string
  tprimary :: "(jsval, entity) btree"
  tindexes :: "(string \<times> secondary) list"
  tevents :: "event list"

type_synonym 'a tres = "('a, table) res"

definition dispatch :: "event \<Rightarrow> table \<Rightarrow> table" where
  "dispatch ev t = t\<lparr>tevents := tevents t @ [ev]\<rparr>"

text \<open>The record a bucket entry refers to.\<close>

definition deref :: "table \<Rightarrow> jsval \<Rightarrow> entity" where
  "deref t k = (case bt_get (tprimary t) k of Some r \<Rightarrow> r | None \<Rightarrow> [])"

text \<open>\<open>primaryKey === undefined || primaryKey === null\<close> is the code's rejection test.\<close>

definition valid_pk :: "jsval \<Rightarrow> bool" where
  "valid_pk k \<longleftrightarrow> k \<noteq> JUndef \<and> k \<noteq> JNull"

section \<open>Index maintenance primitives\<close>

text \<open>
  Appending a record to the bucket of key \<open>v\<close>, creating the bucket if absent
  (\<open>update.ts\<close>: \<open>newIndexItems.push(item)\<close> or \<open>btree.set(key, [item])\<close>).
\<close>

definition index_add :: "secondary \<Rightarrow> jsval \<Rightarrow> jsval \<Rightarrow> secondary" where
  "index_add bt v k = (case bt_get bt v of Some b \<Rightarrow> bt_set v (b @ [k]) bt | None \<Rightarrow> bt_set v [k] bt)"

text \<open>
  Removing a record from the bucket of its old key (\<open>update.ts\<close>:
  \<open>btree.get(old)!.indexOf(item)\<close>, then \<open>splice\<close>): a missing bucket makes
  \<open>indexOf\<close> run on \<open>undefined\<close>, a \<open>TypeError\<close>; an absent record is skipped.
\<close>

definition index_remove :: "secondary \<Rightarrow> jsval \<Rightarrow> jsval \<Rightarrow> error + secondary" where
  "index_remove bt v k =
     (case bt_get bt v of
        None \<Rightarrow> Inl (TypeError ''indexOf of undefined'')
      | Some b \<Rightarrow> Inr (bt_set v (index_of_splice k b) bt))"

text \<open>Detaching on removal (spec 4.1): a missing bucket or record is a no-op.\<close>

definition index_detach :: "secondary \<Rightarrow> jsval \<Rightarrow> jsval \<Rightarrow> secondary" where
  "index_detach bt v k = (case bt_get bt v of None \<Rightarrow> bt | Some b \<Rightarrow> bt_set v (remove1 k b) bt)"

definition set_index :: "string \<Rightarrow> secondary \<Rightarrow> table \<Rightarrow> table" where
  "set_index p bt t = t\<lparr>tindexes := AList.update p bt (tindexes t)\<rparr>"

section \<open>The invariant\<close>

definition primary_ok :: "string \<Rightarrow> (jsval, entity) btree \<Rightarrow> bool" where
  "primary_ok pk prim \<longleftrightarrow>
     bt_wf prim \<and> list_all (\<lambda>(k, r). obj_get r pk = k \<and> valid_pk k) prim"

definition index_ok :: "(jsval, entity) btree \<Rightarrow> string \<Rightarrow> secondary \<Rightarrow> bool" where
  "index_ok prim p bt \<longleftrightarrow>
     bt_wf bt
     \<and> list_all (\<lambda>(v, b). distinct b
          \<and> list_all (\<lambda>k. case bt_get prim k of None \<Rightarrow> False | Some r \<Rightarrow> obj_get r p = v) b) bt
     \<and> list_all (\<lambda>(k, r). k \<in> set (bucket bt (obj_get r p))) prim"

definition table_inv :: "table \<Rightarrow> bool" where
  "table_inv t \<longleftrightarrow>
     primary_ok (tpk t) (tprimary t)
     \<and> distinct (map fst (tindexes t))
     \<and> list_all (\<lambda>(p, bt). index_ok (tprimary t) p bt) (tindexes t)"

subsection \<open>The invariant as the spec states it\<close>

text \<open>The primary keys of the records whose property \<open>p\<close> is \<open>v\<close>.\<close>

definition holders :: "(jsval, entity) btree \<Rightarrow> string \<Rightarrow> jsval \<Rightarrow> jsval set" where
  "holders prim p v = {k. \<exists>r. bt_get prim k = Some r \<and> obj_get r p = v}"

definition index_exact :: "(jsval, entity) btree \<Rightarrow> string \<Rightarrow> secondary \<Rightarrow> bool" where
  "index_exact prim p bt \<longleftrightarrow> (\<forall>v. distinct (bucket bt v) \<and> set (bucket bt v) = holders prim p v)"

lemma bucket_entry: "bt_wf bt \<Longrightarrow> (v, b) \<in> set bt \<Longrightarrow> bucket bt v = b"
  using bt_get_Some_iff [of bt v b] by (simp add: bucket_def)

lemma index_ok_iff:
  assumes wf: "bt_wf prim"
  shows "index_ok prim p bt \<longleftrightarrow> bt_wf bt \<and> index_exact prim p bt"
proof
  assume ok: "index_ok prim p bt"
  then have bwf: "bt_wf bt" by (simp add: index_ok_def)
  have "distinct (bucket bt v) \<and> set (bucket bt v) = holders prim p v" for v
  proof (cases "bt_get bt v")
    case None
    then have "bucket bt v = []" by (simp add: bucket_def)
    moreover have "holders prim p v = {}"
      using ok None wf
      by (fastforce simp: holders_def index_ok_def list_all_iff bucket_def bt_get_Some_iff)
    ultimately show ?thesis by simp
  next
    case (Some b)
    then have b: "bucket bt v = b" by (simp add: bucket_def)
    from Some bwf have vb: "(v, b) \<in> set bt" by (simp add: bt_get_Some_iff)
    have "set b \<subseteq> holders prim p v"
      using ok vb by (fastforce simp: index_ok_def list_all_iff holders_def split: option.splits)
    moreover have "holders prim p v \<subseteq> set b"
      using ok b wf by (fastforce simp: index_ok_def list_all_iff holders_def bt_get_Some_iff)
    moreover have "distinct b"
      using ok vb by (auto simp: index_ok_def list_all_iff)
    ultimately show ?thesis using b by auto
  qed
  with bwf show "bt_wf bt \<and> index_exact prim p bt" by (simp add: index_exact_def)
next
  assume ex: "bt_wf bt \<and> index_exact prim p bt"
  then have bwf: "bt_wf bt" and sets: "\<And>v. set (bucket bt v) = holders prim p v"
    and dist: "\<And>v. distinct (bucket bt v)"
    by (auto simp: index_exact_def)
  have "distinct b \<and> (\<forall>k \<in> set b. \<exists>r. bt_get prim k = Some r \<and> obj_get r p = v)"
    if "(v, b) \<in> set bt" for v b
    using that bucket_entry [OF bwf that] sets [of v] dist [of v] by (auto simp: holders_def)
  moreover have "k \<in> set (bucket bt (obj_get r p))" if "(k, r) \<in> set prim" for k r
    using that sets [of "obj_get r p"] wf by (auto simp: holders_def bt_get_Some_iff)
  ultimately show "index_ok prim p bt"
    using bwf by (fastforce simp: index_ok_def list_all_iff split: option.splits)
qed

lemma primary_ok_iff:
  "primary_ok pk prim \<longleftrightarrow>
     bt_wf prim \<and> (\<forall>k r. bt_get prim k = Some r \<longrightarrow> obj_get r pk = k \<and> valid_pk k)"
  by (auto simp: primary_ok_def list_all_iff bt_get_Some_iff)

lemma table_inv_iff:
  "table_inv t \<longleftrightarrow>
     bt_wf (tprimary t)
     \<and> (\<forall>k r. bt_get (tprimary t) k = Some r \<longrightarrow> obj_get r (tpk t) = k \<and> valid_pk k)
     \<and> distinct (map fst (tindexes t))
     \<and> (\<forall>(p, bt) \<in> set (tindexes t). bt_wf bt \<and> index_exact (tprimary t) p bt)"
  by (auto simp: table_inv_def primary_ok_iff list_all_iff index_ok_iff)

subsection \<open>Index primitives against the invariant\<close>

lemma holders_set [simp]:
  "holders (bt_set k r prim) p v = holders prim p v - {k} \<union> (if obj_get r p = v then {k} else {})"
  by (auto simp: holders_def)

lemma holders_delete [simp]:
  "distinct (bt_keys prim) \<Longrightarrow> holders (bt_delete k prim) p v = holders prim p v - {k}"
  by (auto simp: holders_def)

lemma holders_absent: "bt_get prim k = None \<Longrightarrow> k \<notin> holders prim p v"
  by (simp add: holders_def)

lemma holders_present: "bt_get prim k = Some r \<Longrightarrow> k \<in> holders prim p v \<longleftrightarrow> obj_get r p = v"
  by (simp add: holders_def)

lemma bucket_index_add [simp, bt_simps]:
  "bucket (index_add bt v k) v' = (if v' = v then bucket bt v @ [k] else bucket bt v')"
  by (simp add: index_add_def bucket_def split: option.split)

lemma bucket_index_detach [simp, bt_simps]:
  "bucket (index_detach bt v k) v' = (if v' = v then remove1 k (bucket bt v) else bucket bt v')"
  by (simp add: index_detach_def bucket_def split: option.split)

lemma index_remove_Inr:
  "index_remove bt v k = Inr bt' \<Longrightarrow>
     bucket bt' v' = (if v' = v then remove1 k (bucket bt v) else bucket bt v')"
  by (auto simp: index_remove_def bucket_def split: option.splits)

lemma index_remove_Inr_wf: "index_remove bt v k = Inr bt' \<Longrightarrow> bt_wf bt \<Longrightarrow> bt_wf bt'"
  by (auto simp: index_remove_def split: option.splits)

lemma index_add_wf [intro]: "bt_wf bt \<Longrightarrow> bt_wf (index_add bt v k)"
  by (auto simp: index_add_def split: option.split)

lemma index_detach_wf [intro]: "bt_wf bt \<Longrightarrow> bt_wf (index_detach bt v k)"
  by (auto simp: index_detach_def split: option.split)

text \<open>A record that is in the table has a bucket, so \<open>indexOf\<close> never meets \<open>undefined\<close>.\<close>

lemma index_remove_defined:
  assumes "index_exact prim p bt" and "bt_get prim k = Some r"
  shows "\<exists>bt'. index_remove bt (obj_get r p) k = Inr bt'"
proof -
  have "k \<in> set (bucket bt (obj_get r p))"
    using assms by (simp add: index_exact_def holders_present)
  then show ?thesis by (cases "bt_get bt (obj_get r p)") (auto simp: index_remove_def bucket_def)
qed

lemma index_exact_insert [inv_intros]:
  assumes "index_exact prim p bt" and "bt_get prim k = None"
  shows "index_exact (bt_set k r prim) p (index_add bt (obj_get r p) k)"
  using assms by (auto simp: index_exact_def holders_absent)

lemma index_exact_delete [inv_intros]:
  assumes "index_exact prim p bt" and "bt_get prim k = Some r" and "distinct (bt_keys prim)"
  shows "index_exact (bt_delete k prim) p (index_detach bt (obj_get r p) k)"
  using assms by (auto simp: index_exact_def holders_present)

lemma index_exact_frame [inv_intros]:
  assumes "index_exact prim p bt" and "bt_get prim k = Some r" and "obj_get r' p = obj_get r p"
  shows "index_exact (bt_set k r' prim) p bt"
proof -
  have "holders (bt_set k r' prim) p v = holders prim p v" for v
    using assms(2,3) by (auto simp: holders_def)
  with assms(1) show ?thesis by (simp add: index_exact_def)
qed

lemma index_exact_move [inv_intros]:
  assumes "index_exact prim p bt" and "bt_get prim k = Some r"
    and "index_remove bt (obj_get r p) k = Inr bt1"
  shows "index_exact (bt_set k r' prim) p (index_add bt1 (obj_get r' p) k)"
proof -
  have b1: "bucket bt1 v = (if v = obj_get r p then remove1 k (bucket bt v) else bucket bt v)" for v
    using index_remove_Inr [OF assms(3)] by simp
  have "k \<notin> set (bucket bt1 v)" for v
    using assms(1,2) b1 [of v] by (auto simp: index_exact_def holders_present)
  with assms(1,2) b1 show ?thesis
    by (auto simp: index_exact_def holders_present)
qed

lemma table_inv_map_of:
  "table_inv t \<longleftrightarrow>
     bt_wf (tprimary t)
     \<and> (\<forall>k r. bt_get (tprimary t) k = Some r \<longrightarrow> obj_get r (tpk t) = k \<and> valid_pk k)
     \<and> distinct (map fst (tindexes t))
     \<and> (\<forall>p bt. map_of (tindexes t) p = Some bt \<longrightarrow> bt_wf bt \<and> index_exact (tprimary t) p bt)"
  unfolding table_inv_iff by (auto dest: map_of_SomeD simp: map_of_eq_Some_iff)

end
