(* ===== verification/Mutation.thy ===== *)
theory Mutation
  imports Table
begin

text \<open>
  The mutation pipeline: \<open>insert\<close>/\<open>internalInsertMany\<close>, \<open>remove\<close>/\<open>internalRemoveMany\<close>,
  \<open>update\<close>, \<open>internalUpdateMany\<close> and \<open>upsert\<close>/\<open>internalUpsertMany\<close>
  (\<open>packages/db/src/core\<close>). \<open>update.ts\<close> and \<open>updateMany.ts\<close> are in the
  repository and translated line by line; \<open>insertMany\<close>, \<open>removeMany\<close> and
  \<open>upsertMany\<close> are not, and are modelled from the spec (section 4.6). Every
  operation takes the table and returns its value or error together with the
  table it leaves: a batch that throws keeps the elements it committed before
  (section 7), and its event is not dispatched. Events are dispatched after the
  batch; an update event's new entity is the live stored object, read when the
  event is dispatched.
\<close>

section \<open>Insert\<close>

definition add_to_indexes :: "jsval \<Rightarrow> entity \<Rightarrow> table \<Rightarrow> table" where
  "add_to_indexes k e t =
     t\<lparr>tindexes := map (\<lambda>(p, bt). (p, index_add bt (obj_get e p) k)) (tindexes t)\<rparr>"

fun insert_loop :: "entity list \<Rightarrow> jsval list \<Rightarrow> entity list \<Rightarrow> table \<Rightarrow> jsval list tres" where
  "insert_loop [] ks evs t = (Inr ks, dispatch (InsertEvent evs) t)"
| "insert_loop (e # es) ks evs t =
     (let k = obj_get e (tpk t) in
      if \<not> valid_pk k then (Inl (InvalidPrimaryKey k), t)
      else if bt_get (tprimary t) k \<noteq> None then (Inl (PrimaryKeyAlreadyInUse k), t)
      else insert_loop es (ks @ [k]) (evs @ [e])
             (add_to_indexes k e (t\<lparr>tprimary := bt_set k e (tprimary t)\<rparr>)))"

definition internalInsertMany :: "table \<Rightarrow> entity list \<Rightarrow> jsval list tres" where
  "internalInsertMany t es = insert_loop es [] [] t"

text \<open>\<open>ids[0]\<close> of the batch of one.\<close>

definition internalInsert :: "table \<Rightarrow> entity \<Rightarrow> jsval tres" where
  "internalInsert t e =
     (case internalInsertMany t [e] of
        (Inl err, t') \<Rightarrow> (Inl err, t')
      | (Inr ids, t') \<Rightarrow> (Inr (case ids of [] \<Rightarrow> JUndef | k # _ \<Rightarrow> k), t'))"

section \<open>Remove\<close>

definition detach :: "jsval \<Rightarrow> entity \<Rightarrow> table \<Rightarrow> table" where
  "detach k r t =
     t\<lparr>tprimary := bt_delete k (tprimary t),
       tindexes := map (\<lambda>(p, bt). (p, index_detach bt (obj_get r p) k)) (tindexes t)\<rparr>"

fun remove_loop :: "entity list \<Rightarrow> bool \<Rightarrow> entity list \<Rightarrow> table \<Rightarrow> bool tres" where
  "remove_loop [] all evs t = (Inr all, dispatch (RemoveEvent evs) t)"
| "remove_loop (e # es) all evs t =
     (let k = obj_get e (tpk t) in
      case bt_get (tprimary t) k of
        None \<Rightarrow> remove_loop es False evs t
      | Some r \<Rightarrow> remove_loop es all (evs @ [r]) (detach k r t))"

definition internalRemoveMany :: "table \<Rightarrow> entity list \<Rightarrow> bool tres" where
  "internalRemoveMany t es = remove_loop es True [] t"

definition internalRemove :: "table \<Rightarrow> entity \<Rightarrow> bool tres" where
  "internalRemove t e = internalRemoveMany t [e]"

section \<open>Update\<close>

text \<open>\<open>item[key] = diff[key]\<close> on the stored object.\<close>

definition set_field :: "jsval \<Rightarrow> string \<Rightarrow> jsval \<Rightarrow> table \<Rightarrow> table" where
  "set_field k f v t = t\<lparr>tprimary := bt_set k (AList.update f v (deref t k)) (tprimary t)\<rparr>"

text \<open>
  The loop \<open>for (key in diff)\<close> of \<open>update.ts\<close> and \<open>updateMany.ts\<close>: \<open>old\<close> is
  the clone taken before the loop, \<open>k\<close> the primary key of the stored item.
\<close>

fun apply_diff :: "jsval \<Rightarrow> entity \<Rightarrow> diff \<Rightarrow> table \<Rightarrow> unit tres" where
  "apply_diff k old [] t = (Inr (), t)"
| "apply_diff k old ((f, v) # d) t =
     (if f = tpk t then apply_diff k old d t
      else
        let t1 = set_field k f v t in
        if obj_get old f \<noteq> v then
          (case map_of (tindexes t1) f of
             None \<Rightarrow> apply_diff k old d t1
           | Some bt \<Rightarrow>
               (case index_remove bt (obj_get old f) k of
                  Inl err \<Rightarrow> (Inl err, t1)
                | Inr bt1 \<Rightarrow> apply_diff k old d (set_index f (index_add bt1 v k) t1)))
        else apply_diff k old d t1)"

text \<open>
  One element of a batch: the primary-key checks, the clone, the field loop.
  \<open>update.ts\<close> and \<open>updateMany.ts\<close> differ only in the errors they throw, which
  are the parameters.
\<close>

definition update_entity ::
  "(jsval \<Rightarrow> error) \<Rightarrow> (jsval \<Rightarrow> error) \<Rightarrow> diff \<Rightarrow> table \<Rightarrow> (jsval \<times> entity) tres" where
  "update_entity bad_key not_found d t =
     (let k = obj_get d (tpk t) in
      if \<not> valid_pk k then (Inl (bad_key k), t)
      else case bt_get (tprimary t) k of
        None \<Rightarrow> (Inl (not_found k), t)
      | Some item \<Rightarrow>
          (case apply_diff k item d t of
             (Inl err, t') \<Rightarrow> (Inl err, t')
           | (Inr _, t') \<Rightarrow> (Inr (k, item), t')))"

fun update_loop :: "diff list \<Rightarrow> jsval list \<Rightarrow> (entity \<times> jsval) list \<Rightarrow> table \<Rightarrow> jsval list tres" where
  "update_loop [] ks evs t =
     (Inr ks, dispatch (UpdateEvent (map (\<lambda>(old, k). (old, deref t k)) evs)) t)"
| "update_loop (d # ds) ks evs t =
     (case update_entity InvalidPrimaryKey ItemNotFound d t of
        (Inl err, t') \<Rightarrow> (Inl err, t')
      | (Inr (k, old), t') \<Rightarrow> update_loop ds (ks @ [k]) (evs @ [(old, k)]) t')"

definition internalUpdateMany :: "table \<Rightarrow> diff list \<Rightarrow> jsval list tres" where
  "internalUpdateMany t ds = update_loop ds [] [] t"

definition update :: "table \<Rightarrow> diff \<Rightarrow> unit tres" where
  "update t d =
     (case update_entity (UntypedError ''invalid primary key value'')
             (UntypedError ''item not found'') d t of
        (Inl err, t') \<Rightarrow> (Inl err, t')
      | (Inr (k, old), t') \<Rightarrow> (Inr (), dispatch (UpdateEvent [(old, deref t' k)]) t'))"

section \<open>Upsert\<close>

fun upsert_loop :: "entity list \<Rightarrow> jsval list \<Rightarrow> table \<Rightarrow> jsval list tres" where
  "upsert_loop [] ks t = (Inr ks, t)"
| "upsert_loop (e # es) ks t =
     (let k = obj_get e (tpk t) in
      if \<not> valid_pk k then (Inl (InvalidPrimaryKey k), t)
      else if bt_get (tprimary t) k \<noteq> None then
        (case update_entity InvalidPrimaryKey ItemNotFound e t of
           (Inl err, t') \<Rightarrow> (Inl err, t')
         | (Inr (_, old), t') \<Rightarrow>
             upsert_loop es (ks @ [k]) (dispatch (UpdateEvent [(old, deref t' k)]) t'))
      else upsert_loop es (ks @ [k])
             (dispatch (InsertEvent [e])
               (add_to_indexes k e (t\<lparr>tprimary := bt_set k e (tprimary t)\<rparr>))))"

definition internalUpsertMany :: "table \<Rightarrow> entity list \<Rightarrow> jsval list tres" where
  "internalUpsertMany t es = upsert_loop es [] t"

definition internalUpsert :: "table \<Rightarrow> entity \<Rightarrow> jsval tres" where
  "internalUpsert t e =
     (case internalUpsertMany t [e] of
        (Inl err, t') \<Rightarrow> (Inl err, t')
      | (Inr ids, t') \<Rightarrow> (Inr (case ids of [] \<Rightarrow> JUndef | k # _ \<Rightarrow> k), t'))"

section \<open>Specification functions\<close>

text \<open>JavaScript objects have distinct property names.\<close>

definition obj_wf :: "obj \<Rightarrow> bool" where
  "obj_wf ob \<longleftrightarrow> distinct (map fst ob)"

text \<open>What the loop does to the stored record: every property but the primary key assigned.\<close>

fun patch :: "string \<Rightarrow> obj \<Rightarrow> diff \<Rightarrow> obj" where
  "patch pk r [] = r"
| "patch pk r ((f, v) # d) = patch pk (if f = pk then r else AList.update f v r) d"

section \<open>The invariant across the primitives\<close>

lemma map_of_map_idx [simp]:
  "map_of (map (\<lambda>(p, bt). (p, g p bt)) xs) p = map_option (g p) (map_of xs p)"
  by (induction xs) auto

lemma map_fst_map_idx [simp]: "map (fst \<circ> (\<lambda>(p, bt). (p, g p bt))) xs = map fst xs"
  by (induction xs) auto

lemma table_inv_dispatch [simp]: "table_inv (dispatch ev t) = table_inv t"
  by (simp add: table_inv_def dispatch_def)

lemma tpk_dispatch [simp]: "tpk (dispatch ev t) = tpk t"
  and tprimary_dispatch [simp]: "tprimary (dispatch ev t) = tprimary t"
  and tindexes_dispatch [simp]: "tindexes (dispatch ev t) = tindexes t"
  by (simp_all add: dispatch_def)

lemma table_inv_insert [inv_intros]:
  assumes "table_inv t" and "obj_get e (tpk t) = k" and "valid_pk k"
    and "bt_get (tprimary t) k = None"
  shows "table_inv (add_to_indexes k e (t\<lparr>tprimary := bt_set k e (tprimary t)\<rparr>))"
  using assms by (auto simp: table_inv_map_of add_to_indexes_def intro: index_exact_insert)

lemma table_inv_detach [inv_intros]:
  assumes "table_inv t" and "bt_get (tprimary t) k = Some r"
  shows "table_inv (detach k r t)"
proof -
  have d: "distinct (bt_keys (tprimary t))"
    using assms(1) by (simp add: table_inv_map_of bt_wf_distinct)
  with assms show ?thesis
    by (auto simp: table_inv_map_of detach_def intro: index_exact_delete split: if_splits)
qed

lemma set_field_get [simp]:
  "bt_get (tprimary t) k = Some r \<Longrightarrow>
     bt_get (tprimary (set_field k f v t)) = (bt_get (tprimary t))(k \<mapsto> AList.update f v r)"
  by (simp add: set_field_def deref_def)

lemma set_field_other [simp]:
  "tpk (set_field k f v t) = tpk t" "tindexes (set_field k f v t) = tindexes t"
  by (simp_all add: set_field_def)

text \<open>Assigning a field no index watches, or assigning its current value.\<close>

lemma table_inv_set_field_frame:
  assumes inv: "table_inv t" and r: "bt_get (tprimary t) k = Some r" and f: "f \<noteq> tpk t"
    and unwatched: "map_of (tindexes t) f = None \<or> obj_get r f = v"
  shows "table_inv (set_field k f v t)"
proof -
  have "index_exact (bt_set k (AList.update f v r) (tprimary t)) p bt"
    if "map_of (tindexes t) p = Some bt" for p bt
  proof (rule index_exact_frame)
    show "index_exact (tprimary t) p bt" using inv that by (simp add: table_inv_map_of)
    show "obj_get (AList.update f v r) p = obj_get r p"
      using unwatched that by auto
  qed (rule r)
  with inv r f show ?thesis
    by (auto simp: table_inv_map_of set_field_def deref_def)
qed

text \<open>Assigning a new value to an indexed field, with the bucket move of \<open>update.ts\<close>.\<close>

lemma table_inv_set_field_move:
  assumes inv: "table_inv t" and r: "bt_get (tprimary t) k = Some r" and f: "f \<noteq> tpk t"
    and bt: "map_of (tindexes t) f = Some bt"
  obtains bt1 where "index_remove bt (obj_get r f) k = Inr bt1"
    and "table_inv (set_index f (index_add bt1 v k) (set_field k f v t))"
proof -
  have ex: "index_exact (tprimary t) f bt" and wf: "bt_wf bt"
    using inv bt by (auto simp: table_inv_map_of)
  obtain bt1 where bt1: "index_remove bt (obj_get r f) k = Inr bt1"
    using index_remove_defined [OF ex r] by blast
  let ?r' = "AList.update f v r"
  have moved: "index_exact (bt_set k ?r' (tprimary t)) f (index_add bt1 v k)"
    using index_exact_move [OF ex r bt1, of ?r'] by simp
  have others: "index_exact (bt_set k ?r' (tprimary t)) p bt'"
    if "map_of (tindexes t) p = Some bt'" "p \<noteq> f" for p bt'
    using inv that r by (auto simp: table_inv_map_of intro: index_exact_frame)
  have "bt_wf (index_add bt1 v k)"
    using index_remove_Inr_wf [OF bt1 wf] by blast
  with inv r f moved others have "table_inv (set_index f (index_add bt1 v k) (set_field k f v t))"
    by (auto simp: table_inv_map_of set_index_def set_field_def deref_def update_conv' distinct_update)
  with bt1 that show ?thesis by blast
qed

section \<open>The field loop\<close>

lemma set_index_simps [simp]:
  "tpk (set_index p bt t) = tpk t" "tprimary (set_index p bt t) = tprimary t"
  "tevents (set_index p bt t) = tevents t" "tname (set_index p bt t) = tname t"
  by (simp_all add: set_index_def)

lemma set_field_simps [simp]:
  "tevents (set_field k f v t) = tevents t" "tname (set_field k f v t) = tname t"
  by (simp_all add: set_field_def)

lemma apply_diff_correct:
  assumes "table_inv t" and "bt_get (tprimary t) k = Some r" and "distinct (map fst d)"
    and "\<forall>(f, v) \<in> set d. f \<noteq> tpk t \<longrightarrow> obj_get r f = obj_get old f"
  shows "\<exists>t'. apply_diff k old d t = (Inr (), t') \<and> table_inv t' \<and> tpk t' = tpk t
           \<and> tname t' = tname t \<and> tevents t' = tevents t
           \<and> bt_get (tprimary t') = (bt_get (tprimary t))(k \<mapsto> patch (tpk t) r d)"
  using assms
proof (induction d arbitrary: t r)
  case Nil
  then show ?case by (simp add: map_upd_triv)
next
  case (Cons fv d)
  obtain f v where fv: "fv = (f, v)" by (cases fv)
  show ?case
  proof (cases "f = tpk t")
    case True
    with Cons.prems Cons.IH [of t r] show ?thesis by (simp add: fv)
  next
    case False
    let ?t1 = "set_field k f v t" and ?r' = "AList.update f v r"
    have r1: "bt_get (tprimary ?t1) k = Some ?r'" using Cons.prems(2) by simp
    have d: "distinct (map fst d)" and fd: "f \<notin> fst ` set d"
      using Cons.prems(3) by (auto simp: fv)
    have rest: "\<forall>(f', v') \<in> set d. f' \<noteq> tpk ?t1 \<longrightarrow> obj_get ?r' f' = obj_get old f'"
      using Cons.prems(4) fd by (force simp: fv)
    have oldf: "obj_get r f = obj_get old f" using Cons.prems(4) False by (simp add: fv)
    have get1: "(bt_get (tprimary ?t1))(k \<mapsto> patch (tpk t) ?r' d)
                 = (bt_get (tprimary t))(k \<mapsto> patch (tpk t) r (fv # d))"
      using Cons.prems(2) False by (simp add: fv)
    consider (same) "obj_get old f = v"
      | (free) "obj_get old f \<noteq> v" "map_of (tindexes t) f = None"
      | (moved) bt where "obj_get old f \<noteq> v" "map_of (tindexes t) f = Some bt"
      by (cases "map_of (tindexes t) f") auto
    then show ?thesis
    proof cases
      case same
      have "table_inv ?t1"
        using table_inv_set_field_frame [OF Cons.prems(1,2) False] same oldf by simp
      with Cons.IH [OF _ r1 d rest] get1 False same show ?thesis by (simp add: fv)
    next
      case free
      have "table_inv ?t1"
        using table_inv_set_field_frame [OF Cons.prems(1,2) False] free by simp
      with Cons.IH [OF _ r1 d rest] get1 False free show ?thesis by (simp add: fv)
    next
      case moved
      obtain bt1 where bt1: "index_remove bt (obj_get r f) k = Inr bt1"
        and inv2: "table_inv (set_index f (index_add bt1 v k) ?t1)"
        using table_inv_set_field_move [OF Cons.prems(1,2) False moved(2)] by metis
      let ?t2 = "set_index f (index_add bt1 v k) ?t1"
      have r2: "bt_get (tprimary ?t2) k = Some ?r'" using r1 by simp
      have rest2: "\<forall>(f', v') \<in> set d. f' \<noteq> tpk ?t2 \<longrightarrow> obj_get ?r' f' = obj_get old f'"
        using rest by simp
      from Cons.IH [OF inv2 r2 d rest2] get1 False moved bt1 oldf show ?thesis
        by (simp add: fv)
    qed
  qed
qed

section \<open>One element of an update batch\<close>

lemma update_entity_invalid:
  "\<not> valid_pk (obj_get d (tpk t)) \<Longrightarrow>
     update_entity bad nf d t = (Inl (bad (obj_get d (tpk t))), t)"
  by (simp add: update_entity_def)

lemma update_entity_missing:
  "valid_pk (obj_get d (tpk t)) \<Longrightarrow> bt_get (tprimary t) (obj_get d (tpk t)) = None \<Longrightarrow>
     update_entity bad nf d t = (Inl (nf (obj_get d (tpk t))), t)"
  by (simp add: update_entity_def)

lemma update_entity_ok:
  assumes "table_inv t" and "obj_wf d" and "obj_get d (tpk t) = k" and "valid_pk k"
    and "bt_get (tprimary t) k = Some r"
  shows "\<exists>t'. update_entity bad nf d t = (Inr (k, r), t') \<and> table_inv t' \<and> tpk t' = tpk t
           \<and> tname t' = tname t \<and> tevents t' = tevents t
           \<and> bt_get (tprimary t') = (bt_get (tprimary t))(k \<mapsto> patch (tpk t) r d)"
proof -
  obtain t' where "apply_diff k r d t = (Inr (), t') \<and> table_inv t' \<and> tpk t' = tpk t
      \<and> tname t' = tname t \<and> tevents t' = tevents t
      \<and> bt_get (tprimary t') = (bt_get (tprimary t))(k \<mapsto> patch (tpk t) r d)"
    using apply_diff_correct [OF assms(1,5), of d r] assms(2) by (auto simp: obj_wf_def)
  with assms(3-5) show ?thesis by (auto simp: update_entity_def)
qed

text \<open>Every outcome of one element: its errors are the two key errors and leave the table.\<close>

lemma update_entity_cases:
  assumes "table_inv t" and "obj_wf d" and "update_entity bad nf d t = (res, t')"
  shows "table_inv t' \<and> tpk t' = tpk t \<and> tname t' = tname t \<and> tevents t' = tevents t
         \<and> (\<forall>e. res = Inl e \<longrightarrow> t' = t \<and> e \<in> {bad (obj_get d (tpk t)), nf (obj_get d (tpk t))})"
proof (cases "valid_pk (obj_get d (tpk t))")
  case False
  with assms(3) have "res = Inl (bad (obj_get d (tpk t))) \<and> t' = t"
    by (auto simp: update_entity_invalid)
  with assms(1) show ?thesis by simp
next
  case valid: True
  show ?thesis
  proof (cases "bt_get (tprimary t) (obj_get d (tpk t))")
    case None
    with valid assms(3) have "res = Inl (nf (obj_get d (tpk t))) \<and> t' = t"
      by (auto simp: update_entity_missing)
    with assms(1) show ?thesis by simp
  next
    case (Some r)
    from update_entity_ok [OF assms(1,2) refl valid Some, of bad nf] assms(3) show ?thesis
      by auto
  qed
qed

section \<open>The batches keep the invariant\<close>

lemma insert_loop_inv: "table_inv t \<Longrightarrow> table_inv (snd (insert_loop es ks evs t))"
proof (induction es arbitrary: ks evs t)
  case Nil
  then show ?case by simp
next
  case (Cons e es)
  then show ?case
    by (auto simp: Let_def intro!: Cons.IH table_inv_insert)
qed

lemma remove_loop_inv: "table_inv t \<Longrightarrow> table_inv (snd (remove_loop es all evs t))"
proof (induction es arbitrary: all evs t)
  case Nil
  then show ?case by simp
next
  case (Cons e es)
  then show ?case
    by (auto simp: Let_def intro!: Cons.IH table_inv_detach split: option.split)
qed

lemma update_loop_inv:
  "table_inv t \<Longrightarrow> list_all obj_wf ds \<Longrightarrow> table_inv (snd (update_loop ds ks evs t))"
proof (induction ds arbitrary: ks evs t)
  case Nil
  then show ?case by simp
next
  case (Cons d ds)
  obtain res t' where ue: "update_entity InvalidPrimaryKey ItemNotFound d t = (res, t')"
    by fastforce
  have "table_inv t'" using update_entity_cases [OF _ _ ue] Cons.prems by simp
  with Cons ue show ?case by (auto split: sum.split)
qed

lemma update_inv: "table_inv t \<Longrightarrow> obj_wf d \<Longrightarrow> table_inv (snd (update t d))"
proof -
  assume inv: "table_inv t" and wf: "obj_wf d"
  obtain res t' where ue: "update_entity (UntypedError ''invalid primary key value'')
      (UntypedError ''item not found'') d t = (res, t')"
    by fastforce
  have "table_inv t'" using update_entity_cases [OF inv wf ue] by simp
  with ue show ?thesis by (auto simp: update_def split: sum.split)
qed

lemma upsert_loop_inv:
  "table_inv t \<Longrightarrow> list_all obj_wf es \<Longrightarrow> table_inv (snd (upsert_loop es ks t))"
proof (induction es arbitrary: ks t)
  case Nil
  then show ?case by simp
next
  case (Cons e es)
  obtain res t' where ue: "update_entity InvalidPrimaryKey ItemNotFound e t = (res, t')"
    by fastforce
  have inv': "table_inv t'" using update_entity_cases [OF _ _ ue] Cons.prems by simp
  let ?k = "obj_get e (tpk t)"
  consider (bad) "\<not> valid_pk ?k" | (upd) "valid_pk ?k" "bt_get (tprimary t) ?k \<noteq> None"
    | (ins) "valid_pk ?k" "bt_get (tprimary t) ?k = None"
    by blast
  then show ?case
  proof cases
    case bad
    with Cons.prems show ?thesis by simp
  next
    case upd
    with Cons.IH [of "dispatch _ t'"] Cons.prems inv' ue show ?thesis
      by (auto simp: Let_def split: sum.split)
  next
    case ins
    then have "table_inv (add_to_indexes ?k e (t\<lparr>tprimary := bt_set ?k e (tprimary t)\<rparr>))"
      using Cons.prems(1) by (intro table_inv_insert) simp_all
    with Cons.IH Cons.prems ins show ?thesis by (simp add: Let_def)
  qed
qed

end
