(* ===== verification/Matchers.thy ===== *)
theory Matchers
  imports Prelude
begin

text \<open>
  The matcher evaluator (\<open>packages/core/src/query/filter/matchers.ts\<close>) and the
  filter evaluator that composes it (\<open>filterWhereItems\<close>, which the repository
  calls but does not contain; modelled from the spec, section 4.3). A matcher is
  either a bare value or an object whose tag keys select the comparison; the
  evaluator checks the tags in the order \<open>$equals\<close>, \<open>$gte\<close>, \<open>$gt\<close>, \<open>$lte\<close>,
  \<open>$lt\<close> and only then compares literally. The abstract specification is the
  spec's matcher language (\<open>Equals\<close>, \<open>Gte\<close>, \<dots>) read in the index order; the
  lemmas relate the two, give the error of a bare \<open>null\<close>, and show that the
  filter evaluator computes the spec's predicate.
\<close>

section \<open>Matchers as the code has them\<close>

datatype matcher = MVal jsval | MObj obj

definition matchesComplexEqMatcher :: "jsval \<Rightarrow> obj \<Rightarrow> bool" where
  "matchesComplexEqMatcher p m \<longleftrightarrow> p = obj_get m ''$equals''"

text \<open>\<open>property === matcher\<close>: a primitive is never identical to an object.\<close>

fun matchesSimpleEqMatcher :: "jsval \<Rightarrow> matcher \<Rightarrow> bool" where
  "matchesSimpleEqMatcher p (MVal v) \<longleftrightarrow> p = v"
| "matchesSimpleEqMatcher p (MObj m) \<longleftrightarrow> False"

definition matchesGteMatcher :: "jsval \<Rightarrow> obj \<Rightarrow> bool" where
  "matchesGteMatcher p m \<longleftrightarrow> js_le (obj_get m ''$gte'') p"

definition matchesGtMatcher :: "jsval \<Rightarrow> obj \<Rightarrow> bool" where
  "matchesGtMatcher p m \<longleftrightarrow> js_lt (obj_get m ''$gt'') p"

definition matchesLteMatcher :: "jsval \<Rightarrow> obj \<Rightarrow> bool" where
  "matchesLteMatcher p m \<longleftrightarrow> js_le p (obj_get m ''$lte'')"

definition matchesLtMatcher :: "jsval \<Rightarrow> obj \<Rightarrow> bool" where
  "matchesLtMatcher p m \<longleftrightarrow> js_lt p (obj_get m ''$lt'')"

text \<open>
  \<open>typeof null === "object"\<close>, so a bare \<open>null\<close> matcher reaches
  \<open>"$equals" in null\<close>, which throws a \<open>TypeError\<close>.
\<close>

definition matchesMatcher :: "jsval \<Rightarrow> matcher \<Rightarrow> error + bool" where
  "matchesMatcher p m =
     (case m of
        MVal JNull \<Rightarrow> Inl (TypeError ''in operator applied to null'')
      | MVal v \<Rightarrow> Inr (matchesSimpleEqMatcher p m)
      | MObj ob \<Rightarrow>
          Inr (if obj_has ob ''$equals'' then matchesComplexEqMatcher p ob
               else if obj_has ob ''$gte'' then matchesGteMatcher p ob
               else if obj_has ob ''$gt'' then matchesGtMatcher p ob
               else if obj_has ob ''$lte'' then matchesLteMatcher p ob
               else if obj_has ob ''$lt'' then matchesLtMatcher p ob
               else matchesSimpleEqMatcher p m))"

section \<open>The spec's matcher language\<close>

text \<open>
  Section 4.2: a matcher is one of \<open>Equals\<close>, \<open>Gte\<close>, \<open>Gt\<close>, \<open>Lte\<close>, \<open>Lt\<close>; a bare
  value is sugar for \<open>Equals\<close>; an object is read by its first tag in the
  evaluator's order, and an object with no tag is a literal object, which no
  primitive equals. Range matchers compare in the host's total order, the one the
  indexes are sorted by.
\<close>

datatype matcher_kind = Equals jsval | Gte jsval | Gt jsval | Lte jsval | Lt jsval | LiteralObject

fun classify :: "matcher \<Rightarrow> matcher_kind" where
  "classify (MVal v) = Equals v"
| "classify (MObj ob) =
     (if obj_has ob ''$equals'' then Equals (obj_get ob ''$equals'')
      else if obj_has ob ''$gte'' then Gte (obj_get ob ''$gte'')
      else if obj_has ob ''$gt'' then Gt (obj_get ob ''$gt'')
      else if obj_has ob ''$lte'' then Lte (obj_get ob ''$lte'')
      else if obj_has ob ''$lt'' then Lt (obj_get ob ''$lt'')
      else LiteralObject)"

fun kind_holds :: "matcher_kind \<Rightarrow> jsval \<Rightarrow> bool" where
  "kind_holds (Equals v) p \<longleftrightarrow> p = v"
| "kind_holds (Gte v) p \<longleftrightarrow> v \<le> p"
| "kind_holds (Gt v) p \<longleftrightarrow> v < p"
| "kind_holds (Lte v) p \<longleftrightarrow> p \<le> v"
| "kind_holds (Lt v) p \<longleftrightarrow> p < v"
| "kind_holds LiteralObject p \<longleftrightarrow> False"

text \<open>
  A property value and a matcher agree in type when range operands are ordinals of
  the property's kind (section 4.2: incomparable types are the caller's fault).
\<close>

fun kind_typed :: "matcher_kind \<Rightarrow> jsval \<Rightarrow> bool" where
  "kind_typed (Gte v) p = same_ordinal p v"
| "kind_typed (Gt v) p = same_ordinal p v"
| "kind_typed (Lte v) p = same_ordinal p v"
| "kind_typed (Lt v) p = same_ordinal p v"
| "kind_typed _ p = True"

fun null_free_matcher :: "matcher \<Rightarrow> bool" where
  "null_free_matcher (MVal v) \<longleftrightarrow> v \<noteq> JNull"
| "null_free_matcher (MObj ob) \<longleftrightarrow> True"

section \<open>Filters\<close>

text \<open>
  A filter is a \<open>Where\<close> object (property to matcher, conjoined), an \<open>AND\<close> or an
  \<open>OR\<close> of child filters. The code's types restrict the children (an \<open>AND\<close> holds
  \<open>Where\<close>s and \<open>OR\<close>s, an \<open>OR\<close> holds \<open>Where\<close>s and \<open>AND\<close>s); the datatype allows any.
\<close>

datatype filter_expr = FWhere "(string \<times> matcher) list" | FAnd "filter_expr list" | FOr "filter_expr list"

text \<open>\<open>Array.prototype.every\<close> and \<open>some\<close> over a predicate that may throw.\<close>

fun every_m :: "('a \<Rightarrow> error + bool) \<Rightarrow> 'a list \<Rightarrow> error + bool" where
  "every_m f [] = Inr True"
| "every_m f (x # xs) = (case f x of Inl e \<Rightarrow> Inl e | Inr b \<Rightarrow> if b then every_m f xs else Inr False)"

fun some_m :: "('a \<Rightarrow> error + bool) \<Rightarrow> 'a list \<Rightarrow> error + bool" where
  "some_m f [] = Inr False"
| "some_m f (x # xs) = (case f x of Inl e \<Rightarrow> Inl e | Inr b \<Rightarrow> if b then Inr True else some_m f xs)"

fun filter_m :: "('a \<Rightarrow> error + bool) \<Rightarrow> 'a list \<Rightarrow> error + 'a list" where
  "filter_m f [] = Inr []"
| "filter_m f (x # xs) =
     (case f x of Inl e \<Rightarrow> Inl e
      | Inr b \<Rightarrow> (case filter_m f xs of Inl e \<Rightarrow> Inl e | Inr ys \<Rightarrow> Inr (if b then x # ys else ys)))"

lemma every_m_cong [fundef_cong]:
  "xs = ys \<Longrightarrow> (\<And>x. x \<in> set ys \<Longrightarrow> f x = g x) \<Longrightarrow> every_m f xs = every_m g ys"
  by (induction ys arbitrary: xs) (auto split: sum.split)

lemma some_m_cong [fundef_cong]:
  "xs = ys \<Longrightarrow> (\<And>x. x \<in> set ys \<Longrightarrow> f x = g x) \<Longrightarrow> some_m f xs = some_m g ys"
  by (induction ys arbitrary: xs) (auto split: sum.split)

definition matchesWhere :: "obj \<Rightarrow> (string \<times> matcher) list \<Rightarrow> error + bool" where
  "matchesWhere e w = every_m (\<lambda>(k, m). matchesMatcher (obj_get e k) m) w"

fun matches :: "obj \<Rightarrow> filter_expr \<Rightarrow> error + bool" where
  "matches e (FWhere w) = matchesWhere e w"
| "matches e (FAnd fs) = every_m (matches e) fs"
| "matches e (FOr fs) = some_m (matches e) fs"

definition filterWhereItems :: "obj list \<Rightarrow> filter_expr \<Rightarrow> error + obj list" where
  "filterWhereItems items f = filter_m (\<lambda>e. matches e f) items"

text \<open>The spec's filter semantics (section 4.3) and the side conditions.\<close>

fun filter_holds :: "filter_expr \<Rightarrow> obj \<Rightarrow> bool" where
  "filter_holds (FWhere w) e \<longleftrightarrow> (\<forall>(k, m) \<in> set w. kind_holds (classify m) (obj_get e k))"
| "filter_holds (FAnd fs) e \<longleftrightarrow> (\<forall>f \<in> set fs. filter_holds f e)"
| "filter_holds (FOr fs) e \<longleftrightarrow> (\<exists>f \<in> set fs. filter_holds f e)"

fun null_free :: "filter_expr \<Rightarrow> bool" where
  "null_free (FWhere w) \<longleftrightarrow> list_all (\<lambda>(k, m). null_free_matcher m) w"
| "null_free (FAnd fs) \<longleftrightarrow> list_all null_free fs"
| "null_free (FOr fs) \<longleftrightarrow> list_all null_free fs"

fun filter_typed :: "filter_expr \<Rightarrow> obj \<Rightarrow> bool" where
  "filter_typed (FWhere w) e \<longleftrightarrow> list_all (\<lambda>(k, m). kind_typed (classify m) (obj_get e k)) w"
| "filter_typed (FAnd fs) e \<longleftrightarrow> list_all (\<lambda>f. filter_typed f e) fs"
| "filter_typed (FOr fs) e \<longleftrightarrow> list_all (\<lambda>f. filter_typed f e) fs"

section \<open>Evaluation lemmas\<close>

lemma every_m_Inr:
  "(\<And>x. x \<in> set xs \<Longrightarrow> f x = Inr (P x)) \<Longrightarrow> every_m f xs = Inr (\<forall>x \<in> set xs. P x)"
  by (induction xs) auto

lemma some_m_Inr:
  "(\<And>x. x \<in> set xs \<Longrightarrow> f x = Inr (P x)) \<Longrightarrow> some_m f xs = Inr (\<exists>x \<in> set xs. P x)"
  by (induction xs) auto

lemma filter_m_Inr:
  "(\<And>x. x \<in> set xs \<Longrightarrow> f x = Inr (P x)) \<Longrightarrow> filter_m f xs = Inr (filter P xs)"
  by (induction xs) auto

lemma filter_m_Inr_filter: "filter_m f xs = Inr ys \<Longrightarrow> ys = filter (\<lambda>x. f x = Inr True) xs"
proof (induction xs arbitrary: ys)
  case (Cons x xs)
  then show ?case by (auto split: sum.splits)
qed simp

lemma every_m_Inl: "x \<in> set xs \<Longrightarrow> (\<And>y. y \<in> set xs \<Longrightarrow> f y = Inl e) \<Longrightarrow> every_m f xs = Inl e"
  by (cases xs) auto

lemma filter_m_Inl: "xs \<noteq> [] \<Longrightarrow> (\<And>y. y \<in> set xs \<Longrightarrow> f y = Inl e) \<Longrightarrow> filter_m f xs = Inl e"
  by (cases xs) auto

lemmas matcher_defs [js_defs] = matchesMatcher_def matchesComplexEqMatcher_def
  matchesGteMatcher_def matchesGtMatcher_def matchesLteMatcher_def matchesLtMatcher_def

text \<open>
  On a matcher that is not a bare \<open>null\<close> and a property of the matcher's type,
  JavaScript's \<open>===\<close>, \<open>>=\<close>, \<open>>\<close>, \<open><=\<close>, \<open><\<close> coincide with the kind read by
  the tag order, compared in the total order of the indexes.
\<close>

lemma matchesMatcher_kind:
  assumes "null_free_matcher m" and "kind_typed (classify m) p"
  shows "matchesMatcher p m = Inr (kind_holds (classify m) p)"
proof (cases m)
  case (MVal v)
  with assms show ?thesis by (cases v) (simp_all add: matchesMatcher_def)
next
  case (MObj ob)
  with assms show ?thesis
    by (auto simp: js_defs same_ordinal_sym)
qed

lemma matches_refines:
  "null_free f \<Longrightarrow> filter_typed f e \<Longrightarrow> matches e f = Inr (filter_holds f e)"
proof (induction e f rule: matches.induct)
  case (1 e w)
  then show ?case
    by (auto simp: matchesWhere_def list_all_iff intro!: every_m_Inr matchesMatcher_kind)
next
  case (2 e fs)
  then show ?case by (auto simp: list_all_iff intro!: every_m_Inr)
next
  case (3 e fs)
  then show ?case by (auto simp: list_all_iff intro!: some_m_Inr)
qed

text \<open>
  The filter evaluator keeps exactly the records that satisfy the spec's predicate,
  in their order, when the filter has no bare \<open>null\<close> and the records are of the
  filter's types.
\<close>

lemma filterWhereItems_filter:
  assumes "null_free f" and "list_all (filter_typed f) items"
  shows "filterWhereItems items f = Inr (filter (filter_holds f) items)"
  using assms by (auto simp: filterWhereItems_def list_all_iff intro!: filter_m_Inr matches_refines)

text \<open>
  C10: for a property of the matcher's type, the evaluator is the
  spec's matcher language read by the tag order (JavaScript's \<open>===\<close>, \<open>>=\<close>,
  \<open>>\<close>, \<open><=\<close>, \<open><\<close> agree with the total order of the indexes), except that a
  bare \<open>null\<close> throws a \<open>TypeError\<close> instead of matching \<open>null\<close>.
\<close>

theorem matchesMatcher_spec:
  assumes "kind_typed (classify m) p"
  shows "matchesMatcher p m =
           (if m = MVal JNull then Inl (TypeError ''in operator applied to null'')
            else Inr (kind_holds (classify m) p))"
proof (cases "m = MVal JNull")
  case True
  then show ?thesis by (simp add: matchesMatcher_def)
next
  case False
  then have "null_free_matcher m" by (cases m) auto
  with assms False show ?thesis by (simp add: matchesMatcher_kind)
qed

text \<open>
  An object matcher is read by its first tag in the
  order \<open>$equals\<close>, \<open>$gte\<close>, \<open>$gt\<close>, \<open>$lte\<close>, \<open>$lt\<close>; the others are ignored, so
  \<open>{$gte: a, $lt: b}\<close> is the matcher \<open>>= a\<close> alone.
\<close>

lemma matchesMatcher_first_tag:
  assumes "obj_has ob ''$gte''" and "\<not> obj_has ob ''$equals''"
  shows "matchesMatcher p (MObj ob) = Inr (js_le (obj_get ob ''$gte'') p)"
  using assms by (simp add: js_defs)

end
