(* ===== verification/Query.thy ===== *)
theory Query
  imports Table Matchers
begin

text \<open>
  The query executor and \<open>many\<close>. \<open>selectForWhere\<close>
  (\<open>packages/db/src/query/select/where.ts\<close>) picks the candidates of a \<open>Where\<close>:
  the primary index when the primary key is filtered, else the first declared
  secondary index whose property is filtered, else a full table scan.
  \<open>selectAndFilterItems\<close> (\<open>select/and.ts\<close>) intersects the children's
  candidates by primary key. The selection of an \<open>OR\<close> and the dispatch on the
  filter's shape are not in the repository and are modelled from the spec
  (section 4.5). \<open>many\<close> (\<open>packages/core/src/core/many.ts\<close>) re-checks the
  candidates with the filter evaluator. The index order is the total order of
  \<open>jsval\<close>; the lemmas show that the candidates of a \<open>Where\<close> contain every
  match, so that \<open>many\<close> answers exactly, and exhibit the input on which the
  intersection of \<open>and.ts\<close> loses a match.
\<close>

section \<open>Selection on one index\<close>

text \<open>
  \<open>selectForMatcher\<close> (not in the repository): the values stored under the keys
  the matcher accepts, in key order; equality is a point lookup and a range an
  iteration over one side of the bound, which visit the same keys.
\<close>

definition selectForMatcher :: "(jsval, 'v) btree \<Rightarrow> matcher \<Rightarrow> 'v list" where
  "selectForMatcher bt m = map snd (filter (\<lambda>(k, v). kind_holds (classify m) k) bt)"

record select_result =
  rowsScanned :: "string list option"
  fullTableScan :: bool

text \<open>\<open>for (const property in indexes) if (property in filter)\<close>: the first declared index filtered on.\<close>

fun first_index ::
  "(string \<times> matcher) list \<Rightarrow> (string \<times> secondary) list \<Rightarrow> (string \<times> secondary \<times> matcher) option" where
  "first_index w [] = None"
| "first_index w ((p, bt) # idx) =
     (case map_of w p of Some m \<Rightarrow> Some (p, bt, m) | None \<Rightarrow> first_index w idx)"

text \<open>
  The callback \<open>cb\<close> is modelled by the list of the records it is called with, in
  order; a secondary index's buckets hold references, read through the store.
\<close>

definition selectForWhere :: "table \<Rightarrow> (string \<times> matcher) list \<Rightarrow> entity list \<times> select_result" where
  "selectForWhere t w =
     (if w = [] then ([], \<lparr>rowsScanned = None, fullTableScan = False\<rparr>)
      else case map_of w (tpk t) of
        Some m \<Rightarrow>
          (selectForMatcher (tprimary t) m, \<lparr>rowsScanned = Some [tpk t], fullTableScan = False\<rparr>)
      | None \<Rightarrow>
          (case first_index w (tindexes t) of
             Some (p, bt, m) \<Rightarrow>
               (concat (map (map (deref t)) (selectForMatcher bt m)),
                \<lparr>rowsScanned = Some [p], fullTableScan = False\<rparr>)
           | None \<Rightarrow> (bt_values (tprimary t), \<lparr>rowsScanned = None, fullTableScan = True\<rparr>)))"

text \<open>The list-returning wrapper \<open>many.ts\<close> calls: \<open>null\<close> asks for a full scan.\<close>

definition selectWhereItems :: "table \<Rightarrow> (string \<times> matcher) list \<Rightarrow> entity list option" where
  "selectWhereItems t w =
     (case selectForWhere t w of (items, r) \<Rightarrow> if fullTableScan r then None else Some items)"

section \<open>AND and OR\<close>

text \<open>
  \<open>for (let [index, item] of Array.from(filterItems.entries()))
     if (!itemsMap.has(item[pk])) filterItems.splice(index, 1)\<close>: the indexes are
  those of the snapshot, the splices act on the shrinking array.
\<close>

fun splice_loop :: "('a \<Rightarrow> bool) \<Rightarrow> 'a list \<Rightarrow> (nat \<times> 'a) list \<Rightarrow> 'a list" where
  "splice_loop keep cur [] = cur"
| "splice_loop keep cur ((i, x) # rest) = splice_loop keep (if keep x then cur else splice1 i cur) rest"

definition splice_intersect :: "string \<Rightarrow> entity list \<Rightarrow> entity list \<Rightarrow> entity list" where
  "splice_intersect pk child items =
     splice_loop (\<lambda>x. obj_get x pk \<in> set (map (\<lambda>y. obj_get y pk) child)) items (enumerate 0 items)"

fun and_loop :: "string \<Rightarrow> entity list option \<Rightarrow> entity list option list \<Rightarrow> entity list option" where
  "and_loop pk acc [] = acc"
| "and_loop pk acc (None # cs) = and_loop pk acc cs"
| "and_loop pk acc (Some [] # cs) = Some []"
| "and_loop pk None (Some c # cs) = and_loop pk (Some c) cs"
| "and_loop pk (Some a) (Some c # cs) = and_loop pk (Some (splice_intersect pk c a)) cs"

text \<open>
  The children's selections are pure, so computing them before the loop, as the
  model does, gives what the code's interleaved calls give.
\<close>

definition selectAndFilterItems :: "string \<Rightarrow> entity list option list \<Rightarrow> entity list option" where
  "selectAndFilterItems pk cs =
     (case cs of [] \<Rightarrow> Some [] | [c] \<Rightarrow> c | c # rest \<Rightarrow> and_loop pk c rest)"

text \<open>
  \<open>selectOrFilterItems\<close> (spec 4.5): any full scan makes the whole \<open>OR\<close> one;
  otherwise the union, keeping the first record of each primary key.
\<close>

fun dedup_pk :: "string \<Rightarrow> jsval list \<Rightarrow> entity list \<Rightarrow> entity list" where
  "dedup_pk pk seen [] = []"
| "dedup_pk pk seen (x # xs) =
     (if obj_get x pk \<in> set seen then dedup_pk pk seen xs
      else x # dedup_pk pk (obj_get x pk # seen) xs)"

definition selectOrFilterItems :: "string \<Rightarrow> entity list option list \<Rightarrow> entity list option" where
  "selectOrFilterItems pk cs = map_option (\<lambda>xss. dedup_pk pk [] (concat xss)) (those cs)"

fun selectWhereFilterItems :: "table \<Rightarrow> filter_expr \<Rightarrow> entity list option" where
  "selectWhereFilterItems t (FWhere w) = selectWhereItems t w"
| "selectWhereFilterItems t (FAnd cs) = selectAndFilterItems (tpk t) (map (selectWhereFilterItems t) cs)"
| "selectWhereFilterItems t (FOr cs) = selectOrFilterItems (tpk t) (map (selectWhereFilterItems t) cs)"

section \<open>many\<close>

text \<open>\<open>filter.where\<close> of the query (\<open>limit\<close> and \<open>sort\<close> are not modelled).\<close>

record query =
  qwhere :: "filter_expr option"

text \<open>
  Without a query every record, in key order; with a query, the candidates (a full
  scan when selection returns \<open>null\<close>; an empty array is truthy and kept) re-checked
  by the filter evaluator; a query without \<open>where\<close> returns \<open>[]\<close>.
\<close>

text \<open>The candidates \<open>many\<close> filters: the selection, or every record on a full scan.\<close>

definition candidates :: "table \<Rightarrow> filter_expr \<Rightarrow> entity list" where
  "candidates t f = (case selectWhereFilterItems t f of Some xs \<Rightarrow> xs | None \<Rightarrow> bt_values (tprimary t))"

definition many :: "table \<Rightarrow> query option \<Rightarrow> error + entity list" where
  "many t q =
     (case q of
        None \<Rightarrow> Inr (bt_values (tprimary t))
      | Some qu \<Rightarrow>
          (case qwhere qu of
             None \<Rightarrow> Inr []
           | Some f \<Rightarrow> filterWhereItems (candidates t f) f))"

section \<open>Candidates of a Where\<close>

definition stored :: "table \<Rightarrow> entity set" where
  "stored t = set (bt_values (tprimary t))"

lemma set_selectForMatcher:
  "set (selectForMatcher bt m) = {v. \<exists>k. (k, v) \<in> set bt \<and> kind_holds (classify m) k}"
  by (force simp: selectForMatcher_def)

lemma first_index_Some:
  "first_index w idx = Some (p, bt, m) \<Longrightarrow> map_of idx p = Some bt \<and> map_of w p = Some m"
proof (induction w idx rule: first_index.induct)
  case (2 w p' bt' idx)
  then show ?case by (auto split: option.splits if_splits)
qed simp

lemma deref_stored [simp]: "bt_get (tprimary t) k = Some r \<Longrightarrow> deref t k = r"
  by (simp add: deref_def)

lemma stored_iff: "table_inv t \<Longrightarrow> r \<in> stored t \<longleftrightarrow> (\<exists>k. bt_get (tprimary t) k = Some r)"
  by (simp add: stored_def table_inv_map_of set_bt_values)

lemma stored_key: "table_inv t \<Longrightarrow> bt_get (tprimary t) k = Some r \<Longrightarrow> obj_get r (tpk t) = k"
  by (simp add: table_inv_map_of)

lemma map_fst_determined: "(\<forall>(k, r) \<in> set xs. f r = k) \<Longrightarrow> map fst xs = map f (map snd xs)"
  by (induction xs) auto

lemma distinct_pk_values:
  "table_inv t \<Longrightarrow> distinct (map (\<lambda>r. obj_get r (tpk t)) (bt_values (tprimary t)))"
proof -
  assume inv: "table_inv t"
  then have keys: "\<forall>(k, r) \<in> set (tprimary t). obj_get r (tpk t) = k"
    and d: "distinct (map fst (tprimary t))"
    by (auto simp: table_inv_def primary_ok_def list_all_iff bt_wf_def strict_sorted_iff)
  from map_fst_determined [OF keys] d show ?thesis
    by (simp add: bt_values_def del: map_map)
qed

lemma distinct_values: "table_inv t \<Longrightarrow> distinct (bt_values (tprimary t))"
  using distinct_pk_values [of t] by (simp add: distinct_map)

lemma distinct_concat_snd:
  assumes "distinct (map fst xs)" and "\<And>v b. (v, b) \<in> set xs \<Longrightarrow> distinct b \<and> set b \<subseteq> S v"
    and "\<And>v v'. v \<noteq> v' \<Longrightarrow> S v \<inter> S v' = {}"
  shows "distinct (concat (map snd xs))"
  using assms(1,2)
proof (induction xs)
  case Nil
  then show ?case by simp
next
  case (Cons e xs)
  obtain v b where e: "e = (v, b)" by (cases e)
  have vb: "distinct b \<and> set b \<subseteq> S v" using Cons.prems(2) [of v b] e by simp
  have rest: "distinct (concat (map snd xs))"
  proof (rule Cons.IH)
    show "distinct (map fst xs)" using Cons.prems(1) by simp
    show "distinct b' \<and> set b' \<subseteq> S v'" if "(v', b') \<in> set xs" for v' b'
      using Cons.prems(2) [of v' b'] that by simp
  qed
  have "y \<notin> set b" if "(v', b') \<in> set xs" and "y \<in> set b'" for v' b' y
  proof
    assume "y \<in> set b"
    have "v' \<noteq> v" using Cons.prems(1) that(1) e by force
    moreover have "y \<in> S v'" using Cons.prems(2) [of v' b'] that by auto
    moreover have "y \<in> S v" using vb \<open>y \<in> set b\<close> by auto
    ultimately show False using assms(3) [of v' v] by blast
  qed
  then have "set b \<inter> set (concat (map snd xs)) = {}" by fastforce
  with vb rest e show ?case by simp
qed

text \<open>The records a secondary index hands to the callback.\<close>

lemma secondary_candidates:
  assumes inv: "table_inv t" and bt: "map_of (tindexes t) p = Some bt"
  shows "distinct (concat (map (map (deref t)) (selectForMatcher bt m)))
    \<and> set (concat (map (map (deref t)) (selectForMatcher bt m)))
        = {r \<in> stored t. kind_holds (classify m) (obj_get r p)}"
    (is "distinct ?cs \<and> _")
proof -
  have wf: "bt_wf bt" and ex: "index_exact (tprimary t) p bt"
    using inv bt by (auto simp: table_inv_map_of)
  let ?P = "\<lambda>(k, v). kind_holds (classify m) k"
  let ?xs = "filter ?P bt"
  let ?K = "concat (map snd ?xs)"
  have cs: "?cs = map (deref t) ?K"
    by (simp add: selectForMatcher_def map_concat)
  have entry: "set b = holders (tprimary t) p v \<and> distinct b" if "(v, b) \<in> set bt" for v b
    using ex bucket_entry [OF wf that] by (auto simp: index_exact_def)
  have keys: "k \<in> set ?K \<longleftrightarrow> (\<exists>r. bt_get (tprimary t) k = Some r \<and> kind_holds (classify m) (obj_get r p))"
    for k
  proof
    assume "k \<in> set ?K"
    then obtain v b where vb: "(v, b) \<in> set bt" "kind_holds (classify m) v" "k \<in> set b"
      by auto
    then show "\<exists>r. bt_get (tprimary t) k = Some r \<and> kind_holds (classify m) (obj_get r p)"
      using entry [OF vb(1)] by (auto simp: holders_def)
  next
    assume "\<exists>r. bt_get (tprimary t) k = Some r \<and> kind_holds (classify m) (obj_get r p)"
    then obtain r where r: "bt_get (tprimary t) k = Some r" "kind_holds (classify m) (obj_get r p)"
      by blast
    then have kb: "k \<in> set (bucket bt (obj_get r p))"
      using ex by (simp add: index_exact_def holders_def)
    then obtain b where "bt_get bt (obj_get r p) = Some b" and "k \<in> set b"
      by (cases "bt_get bt (obj_get r p)") (auto simp: bucket_def)
    then have "(obj_get r p, b) \<in> set ?xs" and "k \<in> set b"
      using r(2) wf by (auto simp: bt_get_Some_iff)
    then show "k \<in> set ?K" by force
  qed
  have dk: "distinct ?K"
  proof (rule distinct_concat_snd)
    show "distinct (map fst ?xs)"
      using bt_wf_distinct [OF wf] by (simp add: bt_keys_def distinct_map_filter)
    show "distinct b \<and> set b \<subseteq> holders (tprimary t) p v" if "(v, b) \<in> set ?xs" for v b
      using entry [of v b] that by simp
    show "holders (tprimary t) p v \<inter> holders (tprimary t) p v' = {}" if "v \<noteq> v'" for v v'
      using that by (auto simp: holders_def)
  qed
  have inj: "inj_on (deref t) (set ?K)"
  proof (rule inj_onI)
    fix x y assume "x \<in> set ?K" "y \<in> set ?K" "deref t x = deref t y"
    then show "x = y" using keys stored_key [OF inv] by (metis deref_stored)
  qed
  have "set ?cs = deref t ` set ?K" by (simp add: cs)
  also have "\<dots> = {r \<in> stored t. kind_holds (classify m) (obj_get r p)}"
  proof
    show "deref t ` set ?K \<subseteq> {r \<in> stored t. kind_holds (classify m) (obj_get r p)}"
    proof
      fix r assume "r \<in> deref t ` set ?K"
      then obtain k where k: "k \<in> set ?K" and rk: "r = deref t k" by blast
      obtain r' where "bt_get (tprimary t) k = Some r'" "kind_holds (classify m) (obj_get r' p)"
        using keys [THEN iffD1, OF k] by blast
      with rk show "r \<in> {r \<in> stored t. kind_holds (classify m) (obj_get r p)}"
        using stored_iff [OF inv] by auto
    qed
  next
    show "{r \<in> stored t. kind_holds (classify m) (obj_get r p)} \<subseteq> deref t ` set ?K"
    proof
      fix r assume r: "r \<in> {r \<in> stored t. kind_holds (classify m) (obj_get r p)}"
      then obtain k where k: "bt_get (tprimary t) k = Some r"
        using stored_iff [OF inv] by blast
      with r have "k \<in> set ?K" using keys [THEN iffD2] by blast
      with k show "r \<in> deref t ` set ?K" by force
    qed
  qed
  finally show ?thesis
    using dk inj by (simp add: cs distinct_map)
qed

lemma primary_candidates:
  assumes inv: "table_inv t"
  shows "distinct (selectForMatcher (tprimary t) m)
    \<and> set (selectForMatcher (tprimary t) m) = {r \<in> stored t. kind_holds (classify m) (obj_get r (tpk t))}"
proof -
  have "distinct (selectForMatcher (tprimary t) m)"
    using distinct_values [OF inv]
    by (simp add: selectForMatcher_def bt_values_def distinct_map_filter)
  moreover have "set (selectForMatcher (tprimary t) m) = {r \<in> stored t. kind_holds (classify m) (obj_get r (tpk t))}"
    using inv by (auto simp: set_selectForMatcher stored_iff bt_get_Some_iff table_inv_map_of)
  ultimately show ?thesis by blast
qed

section \<open>many answers a Where exactly\<close>

lemma where_candidates:
  assumes inv: "table_inv t" and w: "w \<noteq> []"
    and cs: "cs = (case selectWhereItems t w of Some xs \<Rightarrow> xs | None \<Rightarrow> bt_values (tprimary t))"
  shows "distinct cs \<and> set cs \<subseteq> stored t \<and> {r \<in> stored t. filter_holds (FWhere w) r} \<subseteq> set cs"
proof (cases "map_of w (tpk t)")
  case (Some m)
  then have "cs = selectForMatcher (tprimary t) m"
    using w by (simp add: cs selectWhereItems_def selectForWhere_def)
  moreover have "kind_holds (classify m) (obj_get r (tpk t))" if "filter_holds (FWhere w) r" for r
    using that map_of_SomeD [OF Some] by fastforce
  ultimately show ?thesis using primary_candidates [OF inv, of m] by blast
next
  case None
  show ?thesis
  proof (cases "first_index w (tindexes t)")
    case (Some x)
    then obtain p bt m where x: "x = (p, bt, m)" by (cases x) auto
    with Some have bt: "map_of (tindexes t) p = Some bt" and wm: "map_of w p = Some m"
      using first_index_Some by blast+
    have "cs = concat (map (map (deref t)) (selectForMatcher bt m))"
      using w None Some x by (simp add: cs selectWhereItems_def selectForWhere_def)
    moreover have "kind_holds (classify m) (obj_get r p)" if "filter_holds (FWhere w) r" for r
      using that map_of_SomeD [OF wm] by fastforce
    ultimately show ?thesis using secondary_candidates [OF inv bt, of m] by blast
  next
    case no_index: None
    then have "cs = bt_values (tprimary t)"
      using w None by (simp add: cs selectWhereItems_def selectForWhere_def)
    then show ?thesis using distinct_values [OF inv] by (auto simp: stored_def)
  qed
qed

lemma many_where_set:
  assumes inv: "table_inv t" and w: "w \<noteq> []" and nf: "null_free (FWhere w)"
    and typed: "list_all (filter_typed (FWhere w)) (bt_values (tprimary t))"
  shows "\<exists>rs. many t (Some \<lparr>qwhere = Some (FWhere w)\<rparr>) = Inr rs \<and> distinct rs
           \<and> set rs = {r \<in> stored t. filter_holds (FWhere w) r}"
proof -
  define cs where "cs = (case selectWhereItems t w of Some xs \<Rightarrow> xs | None \<Rightarrow> bt_values (tprimary t))"
  have c: "distinct cs \<and> set cs \<subseteq> stored t \<and> {r \<in> stored t. filter_holds (FWhere w) r} \<subseteq> set cs"
    using where_candidates [OF inv w cs_def] .
  have "list_all (filter_typed (FWhere w)) cs"
    using typed c by (auto simp: list_all_iff stored_def)
  then have "filterWhereItems cs (FWhere w) = Inr (filter (filter_holds (FWhere w)) cs)"
    using nf by (rule filterWhereItems_filter [rotated])
  moreover have "many t (Some \<lparr>qwhere = Some (FWhere w)\<rparr>) = filterWhereItems cs (FWhere w)"
    by (simp add: many_def candidates_def cs_def)
  ultimately show ?thesis using c by auto
qed

text \<open>
  C3: on a consistent table, \<open>many\<close> with a non-empty \<open>Where\<close>
  returns every stored record that satisfies it and nothing else, each once,
  whichever index (primary, first declared secondary, none) selected the candidates.
\<close>

theorem many_where_correct:
  assumes "table_inv t" and "w \<noteq> []" and "null_free (FWhere w)"
    and "list_all (filter_typed (FWhere w)) (bt_values (tprimary t))"
  shows "\<exists>rs. many t (Some \<lparr>qwhere = Some (FWhere w)\<rparr>) = Inr rs \<and> distinct rs
           \<and> set rs = {r \<in> stored t. filter_holds (FWhere w) r}"
  using many_where_set [OF assms] .

text \<open>
  C8: secondary indexes accelerate a \<open>Where\<close> query without
  changing its answer: the table with its indexes dropped returns the same records.
\<close>

theorem many_index_independent:
  assumes "table_inv t" and "w \<noteq> []" and "null_free (FWhere w)"
    and "list_all (filter_typed (FWhere w)) (bt_values (tprimary t))"
  shows "\<exists>rs rs'. many t (Some \<lparr>qwhere = Some (FWhere w)\<rparr>) = Inr rs
           \<and> many (t\<lparr>tindexes := []\<rparr>) (Some \<lparr>qwhere = Some (FWhere w)\<rparr>) = Inr rs'
           \<and> set rs = set rs'"
proof -
  have inv': "table_inv (t\<lparr>tindexes := []\<rparr>)"
    using assms(1) by (simp add: table_inv_def)
  have st: "stored (t\<lparr>tindexes := []\<rparr>) = stored t" by (simp add: stored_def)
  show ?thesis
    using many_where_set [OF assms] many_where_set [OF inv' assms(2,3)] assms(4) st by auto
qed

text \<open>
  A \<open>Where\<close> without properties, an \<open>AND\<close> without children and
  a query without \<open>where\<close> all return no record, although every record satisfies
  the first two.
\<close>

lemma many_empty_filters:
  "many t (Some \<lparr>qwhere = Some (FWhere [])\<rparr>) = Inr []
   \<and> many t (Some \<lparr>qwhere = Some (FAnd [])\<rparr>) = Inr []
   \<and> many t (Some \<lparr>qwhere = None\<rparr>) = Inr []
   \<and> filter_holds (FWhere []) r \<and> filter_holds (FAnd []) r"
  by (simp add: many_def candidates_def selectWhereItems_def selectForWhere_def selectAndFilterItems_def
      filterWhereItems_def)

section \<open>AND and OR selections\<close>

lemma splice_loop_append:
  "splice_loop keep cur (es1 @ es2) = splice_loop keep (splice_loop keep cur es1) es2"
  by (induction es1 arbitrary: cur) auto

lemma splice_loop_keep_all:
  "\<forall>x \<in> snd ` set es. keep x \<Longrightarrow> splice_loop keep cur es = cur"
  by (induction es arbitrary: cur) auto

lemma snd_set_enumerate [simp]: "snd ` set (enumerate n xs) = set xs"
  by (induction xs arbitrary: n) auto

text \<open>
  C13: the intersection of \<open>and.ts\<close> is the filter by primary key when
  it drops at most one candidate: the shifted indexes of its \<open>splice\<close> only go
  wrong from the second removal on.
\<close>

theorem splice_intersect_single_drop:
  assumes "length (filter (\<lambda>x. obj_get x pk \<notin> set (map (\<lambda>y. obj_get y pk) child)) items) \<le> 1"
  shows "splice_intersect pk child items
           = filter (\<lambda>x. obj_get x pk \<in> set (map (\<lambda>y. obj_get y pk) child)) items"
proof -
  define keep where "keep = (\<lambda>x. obj_get x pk \<in> set (map (\<lambda>y. obj_get y pk) child))"
  have sl: "splice_intersect pk child items = splice_loop keep items (enumerate 0 items)"
    by (simp add: splice_intersect_def keep_def)
  have len: "length (filter (\<lambda>x. \<not> keep x) items) \<le> 1" using assms by (simp add: keep_def)
  consider (none) "filter (\<lambda>x. \<not> keep x) items = []" | (one) x where "filter (\<lambda>x. \<not> keep x) items = [x]"
    using len by (cases "filter (\<lambda>x. \<not> keep x) items") auto
  then show ?thesis
  proof cases
    case none
    then have "\<forall>x \<in> set items. keep x" by (simp add: filter_empty_conv)
    then have "filter keep items = items" by simp
    with sl splice_loop_keep_all [of "enumerate 0 items" keep items] \<open>\<forall>x \<in> set items. keep x\<close>
    show ?thesis by (simp add: keep_def)
  next
    case one
    then obtain ys zs where items: "items = ys @ x # zs" and ys: "\<forall>u \<in> set ys. keep u"
      and x: "\<not> keep x" and zs: "filter (\<lambda>x. \<not> keep x) zs = []"
      by (auto dest!: filter_eq_ConsD)
    have zs': "\<forall>u \<in> set zs. keep u" using zs by (simp add: filter_empty_conv)
    have "splice_loop keep items (enumerate 0 items)
        = splice_loop keep (splice1 (length ys) items) (enumerate (Suc (length ys)) zs)"
      using ys x by (simp add: items enumerate_append_eq splice_loop_append splice_loop_keep_all)
    also have "\<dots> = ys @ zs"
      using zs' by (simp add: items splice_loop_keep_all splice1_def)
    also have "\<dots> = filter keep items"
      using ys zs' x by (simp add: items)
    finally show ?thesis using sl by (simp add: keep_def)
  qed
qed

lemma dedup_pk_distinct:
  "distinct (map (\<lambda>x. obj_get x pk) (dedup_pk pk seen xs))
   \<and> (\<lambda>x. obj_get x pk) ` set (dedup_pk pk seen xs) = (\<lambda>x. obj_get x pk) ` set xs - set seen
   \<and> set (dedup_pk pk seen xs) \<subseteq> set xs"
  by (induction xs arbitrary: seen) auto

text \<open>
  The selection of an \<open>OR\<close> over concrete candidate sets keeps one
  candidate per primary key, and every primary key of the union (spec 4.5).
\<close>

theorem selectOrFilterItems_distinct:
  assumes "those cs = Some xss"
  shows "\<exists>xs. selectOrFilterItems pk cs = Some xs \<and> distinct (map (\<lambda>x. obj_get x pk) xs)
           \<and> set xs \<subseteq> set (concat xss)
           \<and> (\<lambda>x. obj_get x pk) ` set xs = (\<lambda>x. obj_get x pk) ` set (concat xss)"
  using assms dedup_pk_distinct [of pk "[]" "concat xss"] by (simp add: selectOrFilterItems_def)

lemma selectOrFilterItems_pk_distinct:
  "selectOrFilterItems pk cs = Some xs \<Longrightarrow> distinct (map (\<lambda>x. obj_get x pk) xs)"
  using dedup_pk_distinct [of pk "[]"] by (auto simp: selectOrFilterItems_def)

text \<open>
  On a consistent table, \<open>many\<close> with an \<open>OR\<close> filter returns
  at most one record per primary key, even when a record matches several branches
  (spec, sections 4.5 and 8).
\<close>

lemma many_or_distinct:
  assumes "table_inv t" and "many t (Some \<lparr>qwhere = Some (FOr cs)\<rparr>) = Inr rs"
  shows "distinct (map (\<lambda>r. obj_get r (tpk t)) rs)"
proof -
  let ?cands = "case selectWhereFilterItems t (FOr cs) of Some xs \<Rightarrow> xs | None \<Rightarrow> bt_values (tprimary t)"
  have "filterWhereItems ?cands (FOr cs) = Inr rs" using assms(2) by (simp add: many_def candidates_def)
  then have rs: "rs = filter (\<lambda>x. matches x (FOr cs) = Inr True) ?cands"
    by (simp add: filterWhereItems_def filter_m_Inr_filter)
  have "distinct (map (\<lambda>r. obj_get r (tpk t)) ?cands)"
    using distinct_pk_values [OF assms(1)] selectOrFilterItems_pk_distinct
    by (auto split: option.split)
  then show ?thesis by (simp add: rs distinct_map_filter)
qed

end
