(* ===== verification/UpdateWhere.thy ===== *)
theory UpdateWhere
  imports Mutation Query
begin

text \<open>
  \<open>internalUpdateWhere\<close> (\<open>packages/db/src/core/updateWhere.ts\<close>): select the
  records of the filter (\<open>get\<close>, the synchronous query, modelled by \<open>many\<close>), call
  the user's callback on each (clone-on-read assumed, so the callback sees a copy;
  the model's records are values), reject a callback result whose primary key
  differs, and pass the results to \<open>internalUpdateMany\<close>. \<open>Promise.all\<close> rejects
  with the first rejected element; for callbacks that return at once the checks run
  in list order. The lemmas show that a changed primary key fails before any
  update, and that the invariant is kept.
\<close>

fun promise_all :: "(error + 'a) list \<Rightarrow> error + 'a list" where
  "promise_all [] = Inr []"
| "promise_all (x # xs) =
     (case x of
        Inl e \<Rightarrow> Inl e
      | Inr v \<Rightarrow> (case promise_all xs of Inl e \<Rightarrow> Inl e | Inr vs \<Rightarrow> Inr (v # vs)))"

definition check_pk_unchanged :: "string \<Rightarrow> (entity \<Rightarrow> diff) \<Rightarrow> entity \<Rightarrow> error + diff" where
  "check_pk_unchanged pk callback item =
     (let newItem = callback item in
      if obj_get newItem pk \<noteq> obj_get item pk
      then Inl (PrimaryKeyCannotBeModified (obj_get item pk))
      else Inr newItem)"

definition internalUpdateWhere :: "table \<Rightarrow> query \<Rightarrow> (entity \<Rightarrow> diff) \<Rightarrow> unit tres" where
  "internalUpdateWhere t q callback =
     (case many t (Some q) of
        Inl err \<Rightarrow> (Inl err, t)
      | Inr items \<Rightarrow>
          (case promise_all (map (check_pk_unchanged (tpk t) callback) items) of
             Inl err \<Rightarrow> (Inl err, t)
           | Inr modifiedItems \<Rightarrow>
               (case internalUpdateMany t modifiedItems of
                  (Inl err, t') \<Rightarrow> (Inl err, t')
                | (Inr _, t') \<Rightarrow> (Inr (), t'))))"

section \<open>Lemmas\<close>

lemma promise_all_Inl:
  "x \<in> set xs \<Longrightarrow> isl x \<Longrightarrow> \<exists>e. promise_all xs = Inl e \<and> Inl e \<in> set xs"
proof (induction xs)
  case (Cons y ys)
  then show ?case by (cases y) (auto split: sum.split)
qed simp

lemma promise_all_map_Inr:
  "promise_all (map f xs) = Inr ys \<Longrightarrow> \<forall>y \<in> set ys. \<exists>x \<in> set xs. f x = Inr y"
proof (induction xs arbitrary: ys)
  case (Cons x xs)
  show ?case
  proof (cases "f x")
    case (Inl e)
    with Cons.prems show ?thesis by simp
  next
    case (Inr v)
    with Cons.prems obtain vs where "promise_all (map f xs) = Inr vs" and "ys = v # vs"
      by (auto split: sum.splits)
    with Cons.IH Inr show ?thesis by auto
  qed
qed simp

lemma check_pk_unchanged_Inr:
  "check_pk_unchanged pk cb item = Inr d \<Longrightarrow> d = cb item \<and> obj_get d pk = obj_get item pk"
  by (auto simp: check_pk_unchanged_def Let_def split: if_splits)

lemma check_pk_unchanged_Inl:
  "check_pk_unchanged pk cb item = Inl e \<Longrightarrow> \<exists>k. e = PrimaryKeyCannotBeModified k"
  by (auto simp: check_pk_unchanged_def Let_def split: if_splits)

lemma internalUpdateMany_inv:
  "table_inv t \<Longrightarrow> list_all obj_wf ds \<Longrightarrow> table_inv (snd (internalUpdateMany t ds))"
  by (simp add: internalUpdateMany_def update_loop_inv)

lemma promise_all_checks_wf:
  assumes wf: "\<forall>e. obj_wf (cb e)" and p: "promise_all (map (check_pk_unchanged pk cb) items) = Inr ds"
  shows "list_all obj_wf ds"
proof (unfold list_all_iff, intro ballI)
  fix d assume "d \<in> set ds"
  then have "\<exists>x. check_pk_unchanged pk cb x = Inr d"
    using promise_all_map_Inr [OF p] by blast
  then obtain x where x: "check_pk_unchanged pk cb x = Inr d" ..
  have "d = cb x" using check_pk_unchanged_Inr [OF x] by simp
  with wf show "obj_wf d" by simp
qed

text \<open>The table an update-where leaves: unchanged, or updated by a batch of well-formed diffs.\<close>

lemma internalUpdateWhere_table:
  assumes "\<forall>e. obj_wf (cb e)"
  shows "snd (internalUpdateWhere t q cb) = t
    \<or> (\<exists>ds. list_all obj_wf ds \<and> snd (internalUpdateWhere t q cb) = snd (internalUpdateMany t ds))"
proof (cases "many t (Some q)")
  case (Inl err)
  then show ?thesis by (simp add: internalUpdateWhere_def)
next
  case (Inr items)
  show ?thesis
  proof (cases "promise_all (map (check_pk_unchanged (tpk t) cb) items)")
    case (Inl err)
    with Inr show ?thesis by (simp add: internalUpdateWhere_def)
  next
    case (Inr ds)
    have "list_all obj_wf ds" using promise_all_checks_wf [OF assms Inr] .
    moreover obtain res t' where "internalUpdateMany t ds = (res, t')" by fastforce
    ultimately show ?thesis using Inr \<open>many t (Some q) = Inr items\<close>
      by (cases res) (auto simp: internalUpdateWhere_def)
  qed
qed

lemma internalUpdateWhere_inv:
  assumes inv: "table_inv t" and wf: "\<forall>e. obj_wf (cb e)"
  shows "table_inv (snd (internalUpdateWhere t q cb))"
  using internalUpdateWhere_table [OF wf, of t q] inv internalUpdateMany_inv by auto

end
