(* ===== verification/Operations.thy ===== *)
theory Operations
  imports UpdateWhere
begin

text \<open>
  The behaviour of the table's entry points on every branch, stated against the
  primary index, the event log and \<open>many\<close>: \<open>internalInsert\<close>, \<open>internalRemove\<close>,
  \<open>update\<close>, \<open>internalUpdateMany\<close>, \<open>internalUpsert\<close> and
  \<open>internalUpdateWhere\<close>. A point lookup by primary key answers with the stored
  record, which gives the insert/lookup and remove/lookup round trips.
\<close>

section \<open>Footprints of the primitives\<close>

lemma tevents_dispatch [simp]: "tevents (dispatch ev t) = tevents t @ [ev]"
  by (simp add: dispatch_def)

lemma add_to_indexes_simps [simp]:
  "tprimary (add_to_indexes k e t) = tprimary t" "tevents (add_to_indexes k e t) = tevents t"
  "tpk (add_to_indexes k e t) = tpk t"
  by (simp_all add: add_to_indexes_def)

lemma detach_simps [simp]:
  "tprimary (detach k r t) = bt_delete k (tprimary t)" "tevents (detach k r t) = tevents t"
  "tpk (detach k r t) = tpk t"
  by (simp_all add: detach_def)

section \<open>Insert, remove and lookup\<close>

lemma internalInsert_new:
  assumes "table_inv t" and "obj_get e (tpk t) = k" and "valid_pk k" and "bt_get (tprimary t) k = None"
  shows "\<exists>t'. internalInsert t e = (Inr k, t') \<and> table_inv t' \<and> tpk t' = tpk t
     \<and> bt_get (tprimary t') = (bt_get (tprimary t))(k \<mapsto> e)
     \<and> tevents t' = tevents t @ [InsertEvent [e]]"
  using assms table_inv_insert [OF assms]
  by (simp add: internalInsert_def internalInsertMany_def)

lemma internalInsert_errors:
  "\<not> valid_pk (obj_get e (tpk t)) \<Longrightarrow> internalInsert t e = (Inl (InvalidPrimaryKey (obj_get e (tpk t))), t)"
  "valid_pk (obj_get e (tpk t)) \<Longrightarrow> bt_get (tprimary t) (obj_get e (tpk t)) \<noteq> None \<Longrightarrow>
     internalInsert t e = (Inl (PrimaryKeyAlreadyInUse (obj_get e (tpk t))), t)"
  by (simp_all add: internalInsert_def internalInsertMany_def)

lemma internalRemove_present:
  assumes "table_inv t" and "bt_get (tprimary t) (obj_get e (tpk t)) = Some r"
  shows "\<exists>t'. internalRemove t e = (Inr True, t') \<and> table_inv t' \<and> tpk t' = tpk t
     \<and> bt_get (tprimary t') = (bt_get (tprimary t))(obj_get e (tpk t) := None)
     \<and> tevents t' = tevents t @ [RemoveEvent [r]]"
proof -
  have "distinct (bt_keys (tprimary t))"
    using assms(1) by (simp add: table_inv_map_of bt_wf_distinct)
  with assms table_inv_detach [OF assms] show ?thesis
    by (simp add: internalRemove_def internalRemoveMany_def)
qed

lemma internalRemove_absent:
  "bt_get (tprimary t) (obj_get e (tpk t)) = None \<Longrightarrow>
     internalRemove t e = (Inr False, dispatch (RemoveEvent []) t)"
  by (simp add: internalRemove_def internalRemoveMany_def)

section \<open>Update\<close>

text \<open>
  C5: \<open>update\<close> with a diff naming a stored record assigns every property
  of the diff but the primary key, moves the record between the buckets of the
  changed indexed properties so that the invariant holds, and dispatches one update
  event carrying the record before and after (spec 4.6).
\<close>

theorem update_ok:
  assumes "table_inv t" and "obj_wf d" and "obj_get d (tpk t) = k" and "valid_pk k"
    and "bt_get (tprimary t) k = Some r"
  shows "\<exists>t'. update t d = (Inr (), t') \<and> table_inv t'
     \<and> bt_get (tprimary t') = (bt_get (tprimary t))(k \<mapsto> patch (tpk t) r d)
     \<and> tevents t' = tevents t @ [UpdateEvent [(r, patch (tpk t) r d)]]"
proof -
  obtain t' where ue: "update_entity (UntypedError ''invalid primary key value'')
        (UntypedError ''item not found'') d t = (Inr (k, r), t')"
    and t': "table_inv t'" "tevents t' = tevents t"
      "bt_get (tprimary t') = (bt_get (tprimary t))(k \<mapsto> patch (tpk t) r d)"
    using update_entity_ok [OF assms] by blast
  then show ?thesis by (simp add: update_def deref_def)
qed

text \<open>
  C17: \<open>update\<close> fails only when the diff's primary key is missing or
  names no record, and then with the untyped \<open>Error\<close>s of \<open>update.ts\<close> (not the
  typed errors of \<open>errors.ts\<close> that \<open>updateMany\<close> throws), leaving the table
  and its event log as they were.
\<close>

theorem update_error:
  assumes "table_inv t" and "obj_wf d" and "fst (update t d) = Inl err"
  shows "snd (update t d) = t \<and> err \<in> {UntypedError ''invalid primary key value'' (obj_get d (tpk t)),
     UntypedError ''item not found'' (obj_get d (tpk t))}"
proof -
  obtain res t' where ue: "update_entity (UntypedError ''invalid primary key value'')
      (UntypedError ''item not found'') d t = (res, t')"
    by fastforce
  have "res = Inl err"
    using assms(3) ue by (auto simp: update_def split: sum.splits)
  with update_entity_cases [OF assms(1,2) ue] ue show ?thesis
    by (simp add: update_def)
qed

lemma update_loop_error:
  "table_inv t \<Longrightarrow> list_all obj_wf ds \<Longrightarrow> update_loop ds ks evs t = (Inl err, t') \<Longrightarrow>
     table_inv t' \<and> tpk t' = tpk t \<and> tevents t' = tevents t
     \<and> (\<exists>d \<in> set ds. err \<in> {InvalidPrimaryKey (obj_get d (tpk t)), ItemNotFound (obj_get d (tpk t))})"
proof (induction ds arbitrary: ks evs t)
  case (Cons d ds)
  obtain res t1 where ue: "update_entity InvalidPrimaryKey ItemNotFound d t = (res, t1)"
    by fastforce
  note c = update_entity_cases [OF Cons.prems(1) _ ue]
  show ?case
  proof (cases res)
    case (Inl e)
    with Cons.prems c ue show ?thesis by auto
  next
    case (Inr kr)
    obtain k old where "kr = (k, old)" by fastforce
    with Inr Cons.prems ue have "update_loop ds (ks @ [k]) (evs @ [(old, k)]) t1 = (Inl err, t')"
      by simp
    from Cons.IH [OF _ _ this] Cons.prems c show ?thesis by auto
  qed
qed simp

text \<open>
  C18: a batch update that fails keeps the invariant and the
  updates of the elements before the failing one (there is no rollback), dispatches
  no event, and fails with \<open>InvalidPrimaryKey\<close> or \<open>ItemNotFound\<close> of one of its diffs.
\<close>

theorem internalUpdateMany_error:
  assumes "table_inv t" and "list_all obj_wf ds" and "fst (internalUpdateMany t ds) = Inl err"
  shows "table_inv (snd (internalUpdateMany t ds)) \<and> tevents (snd (internalUpdateMany t ds)) = tevents t
     \<and> (\<exists>d \<in> set ds. err \<in> {InvalidPrimaryKey (obj_get d (tpk t)), ItemNotFound (obj_get d (tpk t))})"
proof -
  have "update_loop ds [] [] t = (Inl err, snd (internalUpdateMany t ds))"
    using assms(3) by (metis internalUpdateMany_def prod.collapse)
  from update_loop_error [OF assms(1,2) this] show ?thesis by simp
qed

lemma dispatch_restore [simp]: "(dispatch ev t)\<lparr>tevents := tevents t\<rparr> = t"
  by (simp add: dispatch_def)

lemma deref_dispatch [simp]: "deref (dispatch ev t) = deref t"
  by (simp add: dispatch_def deref_def fun_eq_iff)

lemma update_loop_prefix:
  assumes "table_inv t" and "list_all obj_wf ds" and "update_loop ds ks evs t = (Inr ks', t1)"
  shows "\<exists>evs'. update_loop (ds @ rest) ks evs t = update_loop rest ks' evs' (t1\<lparr>tevents := tevents t\<rparr>)
     \<and> t1 = dispatch (UpdateEvent (map (\<lambda>(old, k). (old, deref t1 k)) evs')) (t1\<lparr>tevents := tevents t\<rparr>)
     \<and> (map snd evs = ks \<longrightarrow> map snd evs' = ks')"
  using assms
proof (induction ds arbitrary: ks evs t)
  case Nil
  then show ?case by auto
next
  case (Cons d ds)
  obtain res t2 where ue: "update_entity InvalidPrimaryKey ItemNotFound d t = (res, t2)"
    by fastforce
  note c = update_entity_cases [OF Cons.prems(1) _ ue]
  show ?case
  proof (cases res)
    case (Inl e)
    with Cons.prems(3) ue show ?thesis by simp
  next
    case (Inr p)
    obtain k old where p: "p = (k, old)" by fastforce
    from Cons.prems(2) c have inv2: "table_inv t2" and ev2: "tevents t2 = tevents t" by auto
    have "update_loop ds (ks @ [k]) (evs @ [(old, k)]) t2 = (Inr ks', t1)"
      using Cons.prems(3) ue Inr p by simp
    from Cons.IH [OF inv2 _ this] Cons.prems(2) ev2 obtain evs' where
      "update_loop (ds @ rest) (ks @ [k]) (evs @ [(old, k)]) t2 = update_loop rest ks' evs' (t1\<lparr>tevents := tevents t\<rparr>)"
      "t1 = dispatch (UpdateEvent (map (\<lambda>(old, k). (old, deref t1 k)) evs')) (t1\<lparr>tevents := tevents t\<rparr>)"
      "map snd (evs @ [(old, k)]) = ks @ [k] \<longrightarrow> map snd evs' = ks'"
      by auto
    with ue Inr p show ?thesis by auto
  qed
qed

text \<open>
  C19: a batch that throws on a diff after a prefix of successful ones keeps the
  prefix committed (records and bucket moves) and dispatches no event: the table left
  is exactly the one the prefix leaves, without its event (\<open>updateMany.ts\<close> has no
  rollback).
\<close>

theorem internalUpdateMany_no_rollback:
  assumes "table_inv t" and "list_all obj_wf (ds1 @ [d])"
    and "internalUpdateMany t ds1 = (Inr ks, t1)"
    and "fst (update_entity InvalidPrimaryKey ItemNotFound d t1) = Inl e"
  shows "internalUpdateMany t (ds1 @ d # ds2) = (Inl e, t1\<lparr>tevents := tevents t\<rparr>)"
proof -
  let ?t0 = "t1\<lparr>tevents := tevents t\<rparr>"
  let ?k = "obj_get d (tpk t1)"
  have wf: "list_all obj_wf ds1" "obj_wf d" using assms(2) by auto
  obtain evs' where split: "update_loop (ds1 @ d # ds2) [] [] t = update_loop (d # ds2) ks evs' ?t0"
    using update_loop_prefix [where rest = "d # ds2", OF assms(1) wf(1) assms(3) [unfolded internalUpdateMany_def]]
    by blast
  have inv1: "table_inv t1"
    using update_loop_inv [OF assms(1) wf(1), of "[]" "[]"] assms(3) by (simp add: internalUpdateMany_def)
  have step: "update_entity InvalidPrimaryKey ItemNotFound d ?t0 = (Inl e, ?t0)"
  proof (cases "valid_pk ?k")
    case False
    then show ?thesis using assms(4) by (simp add: update_entity_invalid)
  next
    case True
    show ?thesis
    proof (cases "bt_get (tprimary t1) ?k")
      case None
      with True show ?thesis using assms(4) by (simp add: update_entity_missing)
    next
      case (Some r)
      from update_entity_ok [OF inv1 wf(2) refl True Some, of InvalidPrimaryKey ItemNotFound]
      show ?thesis using assms(4) by auto
    qed
  qed
  from split step show ?thesis by (simp add: internalUpdateMany_def)
qed

text \<open>
  C20: a successful batch dispatches one update event whose new entity for each
  updated key is the record stored under that key at the end, read when the event is
  dispatched: a record updated twice in a batch is reported twice in its final
  state, not as a snapshot after each element.
\<close>

theorem internalUpdateMany_event_live:
  assumes "table_inv t" and "list_all obj_wf ds" and "internalUpdateMany t ds = (Inr ks, t')"
  shows "\<exists>olds. length olds = length ks \<and> tevents t' = tevents t @ [UpdateEvent (zip olds (map (deref t') ks))]"
proof -
  obtain evs' where t': "t' = dispatch (UpdateEvent (map (\<lambda>(old, k). (old, deref t' k)) evs')) (t'\<lparr>tevents := tevents t\<rparr>)"
    and keys: "map snd evs' = ks"
    using update_loop_prefix [where rest = "[]", OF assms(1,2) assms(3) [unfolded internalUpdateMany_def]]
    by auto
  have "map (\<lambda>(old, k). (old, deref t' k)) evs' = zip (map fst evs') (map (deref t') ks)"
    using keys [symmetric] by (induction evs' arbitrary: ks) auto
  then have "tevents t' = tevents t @ [UpdateEvent (zip (map fst evs') (map (deref t') ks))]"
    using arg_cong [OF t', of tevents] by (simp add: dispatch_def)
  moreover have "length (map fst evs') = length ks" using keys by (metis length_map)
  ultimately show ?thesis by blast
qed

section \<open>Update-where\<close>

text \<open>
  C11: when the callback of \<open>updateWhere\<close> changes the primary key of a
  selected record, the operation fails with \<open>PrimaryKeyCannotBeModified\<close> before
  any record is updated: the table, its indexes and its events are unchanged.
\<close>

theorem internalUpdateWhere_pk_modified:
  assumes "many t (Some q) = Inr items" and "x \<in> set items"
    and "obj_get (cb x) (tpk t) \<noteq> obj_get x (tpk t)"
  shows "\<exists>k. internalUpdateWhere t q cb = (Inl (PrimaryKeyCannotBeModified k), t)"
proof -
  let ?cs = "map (check_pk_unchanged (tpk t) cb) items"
  have "check_pk_unchanged (tpk t) cb x \<in> set ?cs" using assms(2) by simp
  moreover have "isl (check_pk_unchanged (tpk t) cb x)"
    using assms(3) by (simp add: check_pk_unchanged_def)
  ultimately have "\<exists>e. promise_all ?cs = Inl e \<and> Inl e \<in> set ?cs"
    by (rule promise_all_Inl)
  then obtain e y where e: "promise_all ?cs = Inl e" and y: "check_pk_unchanged (tpk t) cb y = Inl e"
    by auto
  obtain k where "e = PrimaryKeyCannotBeModified k" using check_pk_unchanged_Inl [OF y] by blast
  with e assms(1) show ?thesis by (simp add: internalUpdateWhere_def)
qed

section \<open>Point lookups\<close>

lemma distinct_set_singleton: "distinct xs \<Longrightarrow> set xs = {x} \<Longrightarrow> xs = [x]"
proof (cases xs)
  case (Cons a ys)
  assume "distinct xs" "set xs = {x}"
  with Cons have "a = x" and "set ys \<subseteq> {x}" and "x \<notin> set ys" by auto
  then have "ys = []" by (cases ys) auto
  with Cons \<open>a = x\<close> show ?thesis by simp
qed simp

lemma pk_holders:
  assumes "table_inv t"
  shows "{r \<in> stored t. obj_get r (tpk t) = k} = set_option (bt_get (tprimary t) k)"
proof (intro set_eqI iffI)
  fix r assume "r \<in> {r \<in> stored t. obj_get r (tpk t) = k}"
  then obtain k' where "bt_get (tprimary t) k' = Some r" and "obj_get r (tpk t) = k"
    using stored_iff [OF assms] by blast
  with stored_key [OF assms] show "r \<in> set_option (bt_get (tprimary t) k)" by auto
next
  fix r assume "r \<in> set_option (bt_get (tprimary t) k)"
  then have "bt_get (tprimary t) k = Some r" by simp
  with stored_iff [OF assms] stored_key [OF assms] show "r \<in> {r \<in> stored t. obj_get r (tpk t) = k}"
    by blast
qed

lemma many_pk_lookup:
  assumes "table_inv t" and "valid_pk k"
  shows "many t (Some \<lparr>qwhere = Some (FWhere [(tpk t, MVal k)])\<rparr>)
           = Inr (case bt_get (tprimary t) k of None \<Rightarrow> [] | Some r \<Rightarrow> [r])"
proof -
  have nf: "null_free (FWhere [(tpk t, MVal k)])" using assms(2) by (simp add: valid_pk_def)
  obtain rs where m: "many t (Some \<lparr>qwhere = Some (FWhere [(tpk t, MVal k)])\<rparr>) = Inr rs"
    and d: "distinct rs" and s: "set rs = set_option (bt_get (tprimary t) k)"
    using many_where_set [OF assms(1) _ nf] pk_holders [OF assms(1)] by (auto simp: list_all_iff)
  show ?thesis
  proof (cases "bt_get (tprimary t) k")
    case None
    with m s show ?thesis by simp
  next
    case (Some r)
    with d s have "rs = [r]" by (simp add: distinct_set_singleton)
    with m Some show ?thesis by simp
  qed
qed

section \<open>Round trips\<close>

text \<open>
  C6: inserting a record whose primary key is valid and free stores it under
  that key, keeps the invariant, dispatches one insert event, and a lookup of the key
  with \<open>many\<close> afterwards returns exactly that record (spec, section 8).
\<close>

theorem internalInsert_spec:
  assumes "table_inv t" and "obj_get e (tpk t) = k" and "valid_pk k" and "bt_get (tprimary t) k = None"
  shows "\<exists>t'. internalInsert t e = (Inr k, t') \<and> table_inv t'
     \<and> bt_get (tprimary t') = (bt_get (tprimary t))(k \<mapsto> e)
     \<and> tevents t' = tevents t @ [InsertEvent [e]]
     \<and> many t' (Some \<lparr>qwhere = Some (FWhere [(tpk t, MVal k)])\<rparr>) = Inr [e]"
proof -
  obtain t' where "internalInsert t e = (Inr k, t')" and "table_inv t'" and "tpk t' = tpk t"
    and "bt_get (tprimary t') = (bt_get (tprimary t))(k \<mapsto> e)"
    and "tevents t' = tevents t @ [InsertEvent [e]]"
    using internalInsert_new [OF assms] by blast
  with many_pk_lookup [of t' k] assms(3) show ?thesis by auto
qed

text \<open>
  An insert that fails leaves the table as it was, and fails with
  \<open>InvalidPrimaryKey\<close> (key missing or null) or \<open>PrimaryKeyAlreadyInUse\<close>.
\<close>

lemma internalInsert_error:
  assumes "fst (internalInsert t e) = Inl err"
  shows "snd (internalInsert t e) = t
     \<and> err \<in> {InvalidPrimaryKey (obj_get e (tpk t)), PrimaryKeyAlreadyInUse (obj_get e (tpk t))}"
proof (cases "valid_pk (obj_get e (tpk t)) \<and> bt_get (tprimary t) (obj_get e (tpk t)) = None")
  case True
  then obtain t' where "internalInsert t e = (Inr (obj_get e (tpk t)), t')"
    by (auto simp: internalInsert_def internalInsertMany_def Let_def)
  with assms show ?thesis by simp
next
  case False
  with assms internalInsert_errors [of e t] show ?thesis by (cases "valid_pk (obj_get e (tpk t))") auto
qed

text \<open>
  C7: removing a stored record deletes its primary-key entry, keeps the
  invariant (it leaves every bucket), dispatches one remove event carrying it; a
  lookup of its key then returns nothing, and removing it again reports
  \<open>false\<close> and changes no record (spec, section 8).
\<close>

theorem internalRemove_spec:
  assumes "table_inv t" and "obj_get e (tpk t) = k" and "bt_get (tprimary t) k = Some r"
  shows "\<exists>t'. internalRemove t e = (Inr True, t') \<and> table_inv t'
     \<and> bt_get (tprimary t') = (bt_get (tprimary t))(k := None)
     \<and> tevents t' = tevents t @ [RemoveEvent [r]]
     \<and> many t' (Some \<lparr>qwhere = Some (FWhere [(tpk t, MVal k)])\<rparr>) = Inr []
     \<and> internalRemove t' e = (Inr False, dispatch (RemoveEvent []) t')"
proof -
  have v: "valid_pk k" using assms stored_key [OF assms(1,3)]
    by (auto simp: table_inv_def primary_ok_def list_all_iff bt_get_Some_iff)
  obtain t' where "internalRemove t e = (Inr True, t')" and "table_inv t'" and "tpk t' = tpk t"
    and "bt_get (tprimary t') = (bt_get (tprimary t))(k := None)"
    and "tevents t' = tevents t @ [RemoveEvent [r]]"
    using internalRemove_present [OF assms(1)] assms(2,3) by blast
  with many_pk_lookup [of t' k] v assms(2) internalRemove_absent [of t' e] show ?thesis by auto
qed

section \<open>Upsert\<close>

lemma update_entity_errors_irrelevant:
  "update_entity bad nf d t = (Inr x, t') \<Longrightarrow> update_entity bad' nf' d t = (Inr x, t')"
  by (auto simp: update_entity_def Let_def split: if_splits option.splits prod.splits sum.splits)

lemma internalUpsert_absent:
  "valid_pk (obj_get e (tpk t)) \<Longrightarrow> bt_get (tprimary t) (obj_get e (tpk t)) = None \<Longrightarrow>
     internalUpsert t e = internalInsert t e"
  by (simp add: internalUpsert_def internalUpsertMany_def internalInsert_def internalInsertMany_def)

lemma internalUpsert_present:
  assumes "table_inv t" and "obj_wf e" and "valid_pk (obj_get e (tpk t))"
    and "bt_get (tprimary t) (obj_get e (tpk t)) = Some r"
  shows "internalUpsert t e = (Inr (obj_get e (tpk t)), snd (update t e))"
proof -
  obtain t' where ue: "update_entity InvalidPrimaryKey ItemNotFound e t = (Inr (obj_get e (tpk t), r), t')"
    using update_entity_ok [OF assms(1,2) refl assms(3,4)] by blast
  have "update_entity (UntypedError ''invalid primary key value'') (UntypedError ''item not found'') e t
      = (Inr (obj_get e (tpk t), r), t')"
    by (rule update_entity_errors_irrelevant [OF ue])
  with ue assms(3,4) show ?thesis
    by (simp add: internalUpsert_def internalUpsertMany_def update_def Let_def)
qed

text \<open>
  \<open>upsert\<close> of a record with a valid primary key behaves as
  \<open>insert\<close> when the key is free, and as \<open>update\<close> with the record as the diff
  when it is taken, returning the key (spec 4.6).
\<close>

lemma internalUpsert_spec:
  assumes "table_inv t" and "obj_wf e" and "valid_pk (obj_get e (tpk t))"
  shows "(bt_get (tprimary t) (obj_get e (tpk t)) = None \<longrightarrow> internalUpsert t e = internalInsert t e)
     \<and> (bt_get (tprimary t) (obj_get e (tpk t)) \<noteq> None \<longrightarrow>
          internalUpsert t e = (Inr (obj_get e (tpk t)), snd (update t e)))"
  using internalUpsert_absent [OF assms(3)] internalUpsert_present [OF assms] by auto

end
