(* ===== verification/Analyze.thy ===== *)
theory Analyze
  imports Query
begin

text \<open>
  The query planner (\<open>packages/db/src/query/analyze\<close>): an estimate of the records
  a selection would touch. \<open>analyzeWhere\<close> (\<open>where.ts\<close>) takes, over the properties
  of a \<open>Where\<close> that the primary index or a secondary index covers, the minimum of
  their costs, starting from \<open>Number.MAX_SAFE_INTEGER\<close> and skipping a cost that is
  \<open>undefined\<close>, \<open>0\<close> or \<open>NaN\<close> (the test \<open>complexity && ...\<close>); a secondary
  index's key count is scaled by its fan-out \<open>totalItemSize / size\<close> and rounded.
  \<open>analyzeOr\<close> (\<open>or.ts\<close>) sums its children, \<open>analyze\<close> (\<open>index.ts\<close>) dispatches on
  the filter's shape. \<open>analyzeMatcher\<close> and \<open>analyzeAnd\<close> are not in the repository
  and follow the spec (section 4.4): a point lookup costs 1, a range the number of
  keys on its side, and an \<open>AND\<close> the cheapest of its children. Costs are exact
  natural numbers; the \<open>from\<close> cursor is not modelled.
\<close>

definition MAX_SAFE_INTEGER :: nat where
  "MAX_SAFE_INTEGER = 2 ^ 53 - 1"

definition analyzeMatcher :: "(jsval, 'v) btree \<Rightarrow> matcher \<Rightarrow> nat" where
  "analyzeMatcher bt m =
     (case classify m of
        Equals _ \<Rightarrow> 1
      | LiteralObject \<Rightarrow> 1
      | k \<Rightarrow> length (filter (kind_holds k) (bt_keys bt)))"

text \<open>
  \<open>Math.round(matcherComplexity * (btree.totalItemSize / btree.size))\<close>; on an empty
  index the ratio is \<open>NaN\<close> or \<open>Infinity\<close>, which the loop skips (\<open>None\<close>).
\<close>

definition index_complexity :: "secondary \<Rightarrow> matcher \<Rightarrow> nat option" where
  "index_complexity bt m =
     (if bt_size bt = 0 then None
      else Some ((2 * analyzeMatcher bt m * bt_total_item_size bt + bt_size bt) div (2 * bt_size bt)))"

text \<open>The complexity of one property of the \<open>Where\<close>: \<open>undefined\<close> when nothing indexes it.\<close>

definition property_complexity :: "table \<Rightarrow> string \<Rightarrow> matcher \<Rightarrow> nat option" where
  "property_complexity t key m =
     (if key = tpk t then Some (analyzeMatcher (tprimary t) m)
      else case map_of (tindexes t) key of
        None \<Rightarrow> None
      | Some bt \<Rightarrow> index_complexity bt m)"

fun where_loop :: "table \<Rightarrow> (string \<times> matcher) list \<Rightarrow> nat \<Rightarrow> nat" where
  "where_loop t [] minComplexity = minComplexity"
| "where_loop t ((key, m) # w) minComplexity =
     where_loop t w
       (case property_complexity t key m of
          Some c \<Rightarrow> if c \<noteq> 0 \<and> c < minComplexity then c else minComplexity
        | None \<Rightarrow> minComplexity)"

definition analyzeWhere :: "table \<Rightarrow> (string \<times> matcher) list \<Rightarrow> nat" where
  "analyzeWhere t w = (if w = [] then 0 else where_loop t w MAX_SAFE_INTEGER)"

text \<open>
  A child of the wrong shape (an \<open>AND\<close> inside an \<open>AND\<close>, an \<open>OR\<close> inside an \<open>OR\<close>)
  is handed to \<open>analyzeWhere\<close> as the object \<open>{AND: [...]}\<close> or \<open>{OR: [...]}\<close>:
  one property whose matcher is an array, an object with no tag.
\<close>

fun analyzeAnd :: "table \<Rightarrow> filter_expr list \<Rightarrow> nat"
and analyzeOr :: "table \<Rightarrow> filter_expr list \<Rightarrow> nat" where
  "analyzeAnd t [] = MAX_SAFE_INTEGER"
| "analyzeAnd t (FOr ds # cs) = min (analyzeOr t ds) (analyzeAnd t cs)"
| "analyzeAnd t (FWhere w # cs) = min (analyzeWhere t w) (analyzeAnd t cs)"
| "analyzeAnd t (FAnd ds # cs) = min (analyzeWhere t [(''AND'', MObj [])]) (analyzeAnd t cs)"
| "analyzeOr t [] = 0"
| "analyzeOr t (FAnd ds # cs) = analyzeAnd t ds + analyzeOr t cs"
| "analyzeOr t (FWhere w # cs) = analyzeWhere t w + analyzeOr t cs"
| "analyzeOr t (FOr ds # cs) = analyzeWhere t [(''OR'', MObj [])] + analyzeOr t cs"

fun analyze :: "table \<Rightarrow> filter_expr \<Rightarrow> nat" where
  "analyze t (FAnd cs) = analyzeAnd t cs"
| "analyze t (FOr cs) = analyzeOr t cs"
| "analyze t (FWhere w) = analyzeWhere t w"

section \<open>Lemmas\<close>

text \<open>The costs the loop compares: the defined and non-zero ones.\<close>

definition where_costs :: "table \<Rightarrow> (string \<times> matcher) list \<Rightarrow> nat set" where
  "where_costs t w = {c. \<exists>(key, m) \<in> set w. property_complexity t key m = Some c \<and> c \<noteq> 0}"

lemma where_costs_Cons:
  "where_costs t ((key, m) # w) =
     (case property_complexity t key m of Some c \<Rightarrow> if c \<noteq> 0 then {c} else {} | None \<Rightarrow> {})
     \<union> where_costs t w"
  by (auto simp: where_costs_def split: option.splits)

lemma finite_where_costs: "finite (where_costs t w)"
proof (induction w)
  case Nil
  then show ?case by (simp add: where_costs_def)
next
  case (Cons x w)
  then show ?case by (cases x) (simp add: where_costs_Cons split: option.split)
qed

lemma Min_insert_min: "finite S \<Longrightarrow> Min (insert a (insert b S)) = Min (insert (min a b) S)"
  by (cases "S = {}") (auto simp: min.assoc)

lemma where_loop_Min: "where_loop t w m = Min (insert m (where_costs t w))"
proof (induction w arbitrary: m)
  case Nil
  then show ?case by (simp add: where_costs_def)
next
  case (Cons x w)
  obtain key mt where x: "x = (key, mt)" by fastforce
  show ?case
  proof (cases "property_complexity t key mt")
    case None
    then show ?thesis using Cons.IH by (simp add: x where_costs_Cons)
  next
    case (Some c)
    show ?thesis
    proof (cases "c = 0")
      case True
      with Some Cons.IH show ?thesis by (simp add: x where_costs_Cons)
    next
      case False
      have "Min (insert m (insert c (where_costs t w))) = Min (insert (min m c) (where_costs t w))"
        using finite_where_costs by (rule Min_insert_min)
      moreover have "(if c < m then c else m) = min m c" by auto
      ultimately show ?thesis using Some False Cons.IH
        by (simp only: x where_loop.simps where_costs_Cons option.case if_True if_False
            insert_is_Un [symmetric] Un_insert_left sup_bot.left_neutral) simp
    qed
  qed
qed

lemma MAX_SAFE_INTEGER_pos: "0 < MAX_SAFE_INTEGER"
  by (simp add: MAX_SAFE_INTEGER_def)

lemma where_costs_pos: "c \<in> where_costs t w \<Longrightarrow> 0 < c"
  by (auto simp: where_costs_def)

text \<open>
  C12: on a non-empty \<open>Where\<close>, \<open>analyzeWhere\<close> is the minimum of the
  defined, non-zero costs of its properties (primary index, else secondary index
  scaled by its fan-out), and \<open>Number.MAX_SAFE_INTEGER\<close> when there is none.
\<close>

theorem analyzeWhere_min:
  assumes "w \<noteq> []"
  shows "analyzeWhere t w = Min (insert MAX_SAFE_INTEGER (where_costs t w))"
  using assms by (simp add: analyzeWhere_def where_loop_Min)

text \<open>
  C23: the estimate of a \<open>Where\<close> never exceeds
  \<open>Number.MAX_SAFE_INTEGER\<close>, and is positive unless the \<open>Where\<close> is empty.
\<close>

theorem analyzeWhere_bounds:
  "analyzeWhere t w \<le> MAX_SAFE_INTEGER \<and> (w = [] \<or> 0 < analyzeWhere t w)"
proof -
  let ?S = "insert MAX_SAFE_INTEGER (where_costs t w)"
  have fin: "finite ?S" by (simp add: finite_where_costs)
  have le: "Min ?S \<le> MAX_SAFE_INTEGER" using fin by (rule Min_le) simp
  have "Min ?S \<in> ?S" using fin by (rule Min_in) simp
  then have pos: "0 < Min ?S"
  proof
    assume "Min ?S = MAX_SAFE_INTEGER"
    then show ?thesis using MAX_SAFE_INTEGER_pos by simp
  next
    assume "Min ?S \<in> where_costs t w"
    then show ?thesis by (rule where_costs_pos)
  qed
  show ?thesis using le pos by (simp add: analyzeWhere_def where_loop_Min)
qed

text \<open>
  C25: a \<open>Where\<close> that compares the primary key with a value is estimated
  at 1, a point lookup, whatever else it filters.
\<close>

theorem analyzeWhere_pk_point:
  assumes "(tpk t, MVal v) \<in> set w"
  shows "analyzeWhere t w = 1"
proof -
  have "property_complexity t (tpk t) (MVal v) = Some 1"
    by (simp add: property_complexity_def analyzeMatcher_def)
  then have one: "1 \<in> where_costs t w"
    using assms unfolding where_costs_def by blast
  have "Min (insert MAX_SAFE_INTEGER (where_costs t w)) = 1"
  proof (rule Min_eqI)
    show "finite (insert MAX_SAFE_INTEGER (where_costs t w))" by (simp add: finite_where_costs)
    show "1 \<in> insert MAX_SAFE_INTEGER (where_costs t w)" using one by simp
  qed (use MAX_SAFE_INTEGER_pos where_costs_pos in \<open>auto simp: Suc_le_eq\<close>)
  with assms show ?thesis by (auto simp: analyzeWhere_def where_loop_Min)
qed

lemma analyzeWhere_unknown:
  assumes "w \<noteq> []" and "\<forall>(k, m) \<in> set w. property_complexity t k m \<in> {None, Some 0}"
  shows "analyzeWhere t w = MAX_SAFE_INTEGER"
proof -
  have "where_costs t w = {}" using assms(2) by (auto simp: where_costs_def)
  with assms(1) show ?thesis by (simp add: analyzeWhere_def where_loop_Min)
qed


end
