(* ===== verification/AnalyzeRaw.thy ===== *)
theory AnalyzeRaw
  imports Analyze
begin

text \<open>
  The query planner read on the filter objects it is handed
  (\<open>packages/db/src/query/analyze/index.ts\<close> and \<open>or.ts\<close>). The planner tells
  the shapes apart by a property test, \<open>"AND" in filter\<close> and \<open>"OR" in filter\<close>, and
  not by a tag. Such a test can send it into a child it found by a lookup, so the
  recursion is not structural: \<open>analyze_raw\<close> is a \<open>function\<close> whose termination
  is proved by the size of the object. \<open>raw_of\<close> writes a parsed \<open>filter_expr\<close> as
  the object a caller passes. The theorem at the end shows that the planner on that
  object is the \<open>analyze\<close> of \<open>Analyze\<close>, whenever no \<open>Where\<close> names a
  property \<open>AND\<close> or \<open>OR\<close>.
\<close>

text \<open>
  A filter object is a list of properties. Each property's value is a matcher, or
  an array of child filters (the value of \<open>AND\<close> and \<open>OR\<close>).
\<close>

datatype raw_filter = RObj "(string \<times> raw_value) list"
and raw_value = RMatcher matcher | RArray "raw_filter list"

fun value_children :: "raw_value \<Rightarrow> raw_filter list" where
  "value_children (RArray cs) = cs"
| "value_children (RMatcher m) = []"

text \<open>
  \<open>filter.AND\<close>: the children under a property, the first one of that name (an
  object has one). A value that is not an array has no children, which is where
  \<open>for ... in\<close> over it ends.
\<close>

fun field_children :: "(string \<times> raw_value) list \<Rightarrow> string \<Rightarrow> raw_filter list" where
  "field_children [] key = []"
| "field_children ((k, v) # ps) key = (if k = key then value_children v else field_children ps key)"

text \<open>
  \<open>analyzeWhere\<close> reads every property of the object as a matcher. An array is an
  object with no matcher tag.
\<close>

fun raw_matcher :: "raw_value \<Rightarrow> matcher" where
  "raw_matcher (RMatcher m) = m"
| "raw_matcher (RArray cs) = MObj []"

definition where_of :: "(string \<times> raw_value) list \<Rightarrow> (string \<times> matcher) list" where
  "where_of ps = map (\<lambda>(k, v). (k, raw_matcher v)) ps"

definition has_key :: "(string \<times> raw_value) list \<Rightarrow> string \<Rightarrow> bool" where
  "has_key ps key \<longleftrightarrow> key \<in> fst ` set ps"

fun raw_of :: "filter_expr \<Rightarrow> raw_filter" where
  "raw_of (FWhere w) = RObj (map (\<lambda>(k, m). (k, RMatcher m)) w)"
| "raw_of (FAnd cs) = RObj [(''AND'', RArray (map raw_of cs))]"
| "raw_of (FOr cs) = RObj [(''OR'', RArray (map raw_of cs))]"

fun tag_free :: "filter_expr \<Rightarrow> bool" where
  "tag_free (FWhere w) \<longleftrightarrow> (\<forall>k \<in> fst ` set w. k \<noteq> ''AND'' \<and> k \<noteq> ''OR'')"
| "tag_free (FAnd cs) \<longleftrightarrow> list_all tag_free cs"
| "tag_free (FOr cs) \<longleftrightarrow> list_all tag_free cs"

function (domintros) analyze_raw :: "table \<Rightarrow> raw_filter \<Rightarrow> nat"
and analyzeAnd_raw :: "table \<Rightarrow> raw_filter list \<Rightarrow> nat"
and analyzeOr_raw :: "table \<Rightarrow> raw_filter list \<Rightarrow> nat" where
  "analyze_raw t (RObj ps) =
     (if has_key ps ''AND'' then analyzeAnd_raw t (field_children ps ''AND'')
      else if has_key ps ''OR'' then analyzeOr_raw t (field_children ps ''OR'')
      else analyzeWhere t (where_of ps))"
| "analyzeAnd_raw t [] = MAX_SAFE_INTEGER"
| "analyzeAnd_raw t (RObj ps # cs) =
     min (if has_key ps ''OR'' then analyzeOr_raw t (field_children ps ''OR'') else analyzeWhere t (where_of ps))
         (analyzeAnd_raw t cs)"
| "analyzeOr_raw t [] = 0"
| "analyzeOr_raw t (RObj ps # cs) =
     (if has_key ps ''AND'' then analyzeAnd_raw t (field_children ps ''AND'') else analyzeWhere t (where_of ps))
     + analyzeOr_raw t cs"
  by pat_completeness auto
termination
proof -
  have children: "size_list size (field_children ps key) \<le> size_list (size_prod (\<lambda>_. 0) size) ps"
    for ps key
  proof (induction ps key rule: field_children.induct)
    case (2 k v ps key)
    then show ?case by (cases v) auto
  qed simp
  show ?thesis
    by (relation "measure (\<lambda>x. case x of Inl (t, f) \<Rightarrow> size f
       | Inr (Inl (t, cs)) \<Rightarrow> size_list size cs | Inr (Inr (t, cs)) \<Rightarrow> size_list size cs)")
      (auto intro: le_less_trans [OF children])
qed

definition raw_agrees :: "table \<Rightarrow> filter_expr \<Rightarrow> bool" where
  "raw_agrees t f \<longleftrightarrow> tag_free f \<and> (case f of FWhere w \<Rightarrow> True
     | FAnd ds \<Rightarrow> analyzeAnd_raw t (map raw_of ds) = analyzeAnd t ds
     | FOr ds \<Rightarrow> analyzeOr_raw t (map raw_of ds) = analyzeOr t ds)"

lemma size_field_children:
  "size_list size (field_children ps key) \<le> size_list (size_prod (\<lambda>_. 0) size) ps"
proof (induction ps key rule: field_children.induct)
  case (2 k v ps key)
  then show ?case by (cases v) auto
qed simp

text \<open>The children a filter object names are smaller than it and than any list it heads.\<close>

lemma field_children_smaller:
  "size_list size (field_children ps key) < Suc (size_list (size_prod (\<lambda>_. 0) size) ps)"
  "size_list size (field_children ps key) < Suc (Suc (size_list (size_prod (\<lambda>_. 0) size) ps + size_list size cs))"
  using size_field_children [of ps key] by simp_all

lemma where_of_raw: "where_of (map (\<lambda>(k, m). (k, RMatcher m)) w) = w"
  by (induction w) (auto simp: where_of_def)

lemma has_key_simps [simp]:
  "\<not> has_key [] key"
  "has_key ((k, v) # ps) key \<longleftrightarrow> k = key \<or> has_key ps key"
  by (auto simp: has_key_def)

lemma has_key_raw:
  "has_key (map (\<lambda>(k, m). (k, RMatcher m)) w) key \<longleftrightarrow> key \<in> fst ` set w"
  by (force simp: has_key_def)

lemma where_of_single: "where_of [(k, v)] = [(k, raw_matcher v)]"
  by (simp add: where_of_def)

lemmas raw_of_simps = where_of_raw has_key_raw where_of_single

lemma analyze_raw_children:
  assumes "\<forall>d \<in> set ds. raw_agrees t d"
  shows "analyzeAnd_raw t (map raw_of ds) = analyzeAnd t ds \<and>
         analyzeOr_raw t (map raw_of ds) = analyzeOr t ds"
  using assms
proof (induction ds)
  case (Cons d ds)
  then show ?case by (cases d) (auto simp: raw_agrees_def raw_of_simps)
qed simp

lemma analyze_raw_agrees: "tag_free f \<Longrightarrow> raw_agrees t f"
proof (induction f)
  case (FAnd ds)
  then show ?case using analyze_raw_children [of ds t] by (auto simp: raw_agrees_def list_all_iff)
next
  case (FOr ds)
  then show ?case using analyze_raw_children [of ds t] by (auto simp: raw_agrees_def list_all_iff)
qed (simp add: raw_agrees_def)

text \<open>
  The planner on the filter object written for a parsed filter gives the
  estimate \<open>analyze\<close> gives for the filter, whenever no \<open>Where\<close> in it has a
  property named \<open>AND\<close> or \<open>OR\<close>.
\<close>

lemma analyze_raw_refines:
  assumes "tag_free f"
  shows "analyze_raw t (raw_of f) = analyze t f"
  using analyze_raw_agrees [OF assms, of t]
  by (cases f) (auto simp: raw_agrees_def raw_of_simps)

text \<open>
  The planner terminates on every filter object, however its \<open>AND\<close> and
  \<open>OR\<close> properties nest: each of the three mutually recursive functions is defined
  on every argument. The recursion goes into the children found under a property,
  which are smaller than the object that holds them. So the planner's equation
  (\<open>index.ts\<close>) holds for every object, with no condition on its domain.
\<close>

lemma analyze_raw_terminates:
  "analyze_raw_analyzeAnd_raw_analyzeOr_raw_dom (Inl (t, RObj ps))
   \<and> analyze_raw_analyzeAnd_raw_analyzeOr_raw_dom (Inr (Inl (t, cs)))
   \<and> analyze_raw_analyzeAnd_raw_analyzeOr_raw_dom (Inr (Inr (t, cs)))
   \<and> analyze_raw t (RObj ps) =
       (if has_key ps ''AND'' then analyzeAnd_raw t (field_children ps ''AND'')
        else if has_key ps ''OR'' then analyzeOr_raw t (field_children ps ''OR'')
        else analyzeWhere t (where_of ps))"
proof -
  note dom = analyze_raw_analyzeAnd_raw_analyzeOr_raw.domintros
  have "analyze_raw_analyzeAnd_raw_analyzeOr_raw_dom x" for x
  proof (induction x rule: measure_induct_rule [of "\<lambda>x. case x of Inl (t, f) \<Rightarrow> size f
      | Inr (Inl (t, cs)) \<Rightarrow> size_list size cs | Inr (Inr (t, cs)) \<Rightarrow> size_list size cs"])
    case (less x)
    consider (obj) t ps where "x = Inl (t, RObj ps)"
      | (and_nil) t where "x = Inr (Inl (t, []))"
      | (and_cons) t ps cs where "x = Inr (Inl (t, RObj ps # cs))"
      | (or_nil) t where "x = Inr (Inr (t, []))"
      | (or_cons) t ps cs where "x = Inr (Inr (t, RObj ps # cs))"
      by (metis analyze_raw.cases analyzeAnd_raw.cases analyzeOr_raw.cases sumE)
    then show ?case
    proof cases
      case obj
      show ?thesis unfolding obj by (rule dom(1)) (auto intro!: less simp: obj field_children_smaller)
    next
      case and_nil
      then show ?thesis by (simp add: dom(2))
    next
      case and_cons
      show ?thesis unfolding and_cons by (rule dom(3)) (auto intro!: less simp: and_cons field_children_smaller)
    next
      case or_nil
      then show ?thesis by (simp add: dom(4))
    next
      case or_cons
      show ?thesis unfolding or_cons by (rule dom(5)) (auto intro!: less simp: or_cons field_children_smaller)
    qed
  qed
  then show ?thesis using analyze_raw.psimps by blast
qed

end
