(* ===== verification/Middleware.thy ===== *)
theory Middleware
  imports UpdateWhere
begin

text \<open>
  The hook chain (\<open>packages/db/src/events/Middleware.ts\<close>, \<open>types.ts\<close>) and the
  public entry points that run through it (\<open>insert\<close>, \<open>remove\<close>, \<open>upsert\<close>,
  \<open>updateMany\<close>, \<open>updateWhere\<close>). A hook receives the context (action, table name,
  parameters, \<open>next\<close>) and the table, and returns a result with the table it
  leaves; it may call \<open>next\<close> with rewritten parameters, any number of times, or not
  at all. \<open>executeHook\<close> runs the first hook with a \<open>next\<close> that runs the rest, and
  the implementation when no hook is left; \<open>middleware\<close> runs the database's hooks
  and then the table's, in registration order. The table parameter of a call is
  the table itself; a hook that passes another table is not modelled. Hooks and
  implementations run to completion one after the other (no interleaving).
\<close>

datatype hook_action =
    ActClear | ActCount | ActFirst | ActInsert | ActInsertMany | ActMany | ActOne | ActRemove
  | ActRemoveMany | ActRemoveWhere | ActUpdate | ActUpdateMany | ActUpdateWhere | ActUpsert
  | ActUpsertMany | ActWatch

text \<open>\<open>HookParams\<close> and \<open>HookReturn\<close> of the modelled actions, without the table.\<close>

datatype hook_params =
    PInsert entity
  | PRemove entity
  | PUpsert entity
  | PUpdateMany "diff list"
  | PUpdateWhere query "entity \<Rightarrow> diff"

datatype hook_return = RKey jsval | RBool bool | RKeys "jsval list" | RUnit

type_synonym continuation = "hook_params \<Rightarrow> table \<Rightarrow> hook_return tres"

record hook_context =
  haction :: hook_action
  htable :: string
  hparams :: hook_params
  hnext :: continuation

type_synonym hook = "hook_context \<Rightarrow> table \<Rightarrow> hook_return tres"

primrec executeHook ::
  "hook list \<Rightarrow> hook_action \<Rightarrow> string \<Rightarrow> hook_params \<Rightarrow> continuation \<Rightarrow> table \<Rightarrow> hook_return tres" where
  "executeHook [] action tn params impl = impl params"
| "executeHook (step # next) action tn params impl =
     step \<lparr>haction = action, htable = tn, hparams = params,
           hnext = (\<lambda>args. executeHook next action tn args impl)\<rparr>"

definition middleware ::
  "hook list \<Rightarrow> hook list \<Rightarrow> hook_action \<Rightarrow> hook_params \<Rightarrow> continuation \<Rightarrow> table \<Rightarrow> hook_return tres" where
  "middleware dbHooks tableHooks action params impl t =
     executeHook (dbHooks @ tableHooks) action (tname t) params impl t"

text \<open>
  The first overload, \<open>middleware(hooks, context, impl)\<close>: the hooks are given and
  the table name is the context's.
\<close>

definition middleware_with_hooks ::
  "hook list \<Rightarrow> hook_action \<Rightarrow> string \<Rightarrow> hook_params \<Rightarrow> continuation \<Rightarrow> table \<Rightarrow> hook_return tres" where
  "middleware_with_hooks hooks action contextTable params impl = executeHook hooks action contextTable params impl"

section \<open>The entry points\<close>

text \<open>
  The implementation each entry point passes to \<open>middleware\<close>. A hook that calls
  \<open>next\<close> with the parameters of another action hands the implementation values of
  the wrong shape; the model rejects them with the table unchanged.
\<close>

definition wrong_params :: "table \<Rightarrow> hook_return tres" where
  "wrong_params t = (Inl (TypeError ''parameters of another action''), t)"

fun insert_impl :: continuation where
  "insert_impl (PInsert e) t = apfst (map_sum id RKey) (internalInsert t e)"
| "insert_impl _ t = wrong_params t"

fun remove_impl :: continuation where
  "remove_impl (PRemove e) t = apfst (map_sum id RBool) (internalRemove t e)"
| "remove_impl _ t = wrong_params t"

fun upsert_impl :: continuation where
  "upsert_impl (PUpsert e) t = apfst (map_sum id RKey) (internalUpsert t e)"
| "upsert_impl _ t = wrong_params t"

fun updateMany_impl :: continuation where
  "updateMany_impl (PUpdateMany ds) t = apfst (map_sum id RKeys) (internalUpdateMany t ds)"
| "updateMany_impl _ t = wrong_params t"

fun updateWhere_impl :: continuation where
  "updateWhere_impl (PUpdateWhere q cb) t = apfst (map_sum id (\<lambda>_. RUnit)) (internalUpdateWhere t q cb)"
| "updateWhere_impl _ t = wrong_params t"

definition insert_api :: "hook list \<Rightarrow> hook list \<Rightarrow> table \<Rightarrow> entity \<Rightarrow> hook_return tres" where
  "insert_api dbh th t e = middleware dbh th ActInsert (PInsert e) insert_impl t"

definition remove_api :: "hook list \<Rightarrow> hook list \<Rightarrow> table \<Rightarrow> entity \<Rightarrow> hook_return tres" where
  "remove_api dbh th t e = middleware dbh th ActRemove (PRemove e) remove_impl t"

definition upsert_api :: "hook list \<Rightarrow> hook list \<Rightarrow> table \<Rightarrow> entity \<Rightarrow> hook_return tres" where
  "upsert_api dbh th t e = middleware dbh th ActUpsert (PUpsert e) upsert_impl t"

definition updateMany_api :: "hook list \<Rightarrow> hook list \<Rightarrow> table \<Rightarrow> diff list \<Rightarrow> hook_return tres" where
  "updateMany_api dbh th t ds = middleware dbh th ActUpdateMany (PUpdateMany ds) updateMany_impl t"

definition updateWhere_api ::
  "hook list \<Rightarrow> hook list \<Rightarrow> table \<Rightarrow> query \<Rightarrow> (entity \<Rightarrow> diff) \<Rightarrow> hook_return tres" where
  "updateWhere_api dbh th t q cb = middleware dbh th ActUpdateWhere (PUpdateWhere q cb) updateWhere_impl t"

text \<open>One public call, by its parameters.\<close>

fun api :: "hook list \<Rightarrow> hook list \<Rightarrow> table \<Rightarrow> hook_params \<Rightarrow> hook_return tres" where
  "api dbh th t (PInsert e) = insert_api dbh th t e"
| "api dbh th t (PRemove e) = remove_api dbh th t e"
| "api dbh th t (PUpsert e) = upsert_api dbh th t e"
| "api dbh th t (PUpdateMany ds) = updateMany_api dbh th t ds"
| "api dbh th t (PUpdateWhere q cb) = updateWhere_api dbh th t q cb"

text \<open>The action and implementation of a public call, by its parameters.\<close>

fun action_of :: "hook_params \<Rightarrow> hook_action" where
  "action_of (PInsert e) = ActInsert"
| "action_of (PRemove e) = ActRemove"
| "action_of (PUpsert e) = ActUpsert"
| "action_of (PUpdateMany ds) = ActUpdateMany"
| "action_of (PUpdateWhere q cb) = ActUpdateWhere"

fun impl_of :: "hook_params \<Rightarrow> continuation" where
  "impl_of (PInsert e) = insert_impl"
| "impl_of (PRemove e) = remove_impl"
| "impl_of (PUpsert e) = upsert_impl"
| "impl_of (PUpdateMany ds) = updateMany_impl"
| "impl_of (PUpdateWhere q cb) = updateWhere_impl"

section \<open>Hooks that keep an invariant\<close>

text \<open>JavaScript objects passed as parameters have distinct property names.\<close>

fun params_wf :: "hook_params \<Rightarrow> bool" where
  "params_wf (PInsert e) = True"
| "params_wf (PRemove e) = True"
| "params_wf (PUpsert e) = obj_wf e"
| "params_wf (PUpdateMany ds) = list_all obj_wf ds"
| "params_wf (PUpdateWhere q cb) = (\<forall>e. obj_wf (cb e))"

text \<open>
  A hook keeps \<open>P\<close> when it leaves a \<open>P\<close>-table whenever its continuation does on
  well-formed parameters: it may log, rewrite parameters, call \<open>next\<close> or not, but
  changes the table only through \<open>next\<close> or through operations that keep \<open>P\<close>.
\<close>

definition hook_ok :: "(table \<Rightarrow> bool) \<Rightarrow> hook \<Rightarrow> bool" where
  "hook_ok P h \<longleftrightarrow>
     (\<forall>ctx t. params_wf (hparams ctx)
        \<longrightarrow> (\<forall>ps t'. params_wf ps \<longrightarrow> P t' \<longrightarrow> P (snd (hnext ctx ps t')))
        \<longrightarrow> P t \<longrightarrow> P (snd (h ctx t)))"

text \<open>
  A hook that rewrites the parameters and calls \<open>next\<close> once, returning its
  result; \<open>passthrough\<close> leaves them as they are.
\<close>

definition rewrite_hook :: "(hook_params \<Rightarrow> hook_params) \<Rightarrow> hook" where
  "rewrite_hook f ctx = hnext ctx (f (hparams ctx))"

definition passthrough :: hook where
  "passthrough = rewrite_hook id"

text \<open>A hook that throws \<open>e\<close> without calling \<open>next\<close>.\<close>

definition throwing_hook :: "error \<Rightarrow> hook" where
  "throwing_hook e ctx t = (Inl e, t)"

section \<open>Lemmas\<close>

lemma executeHook_append:
  "executeHook (hs1 @ hs2) action tn ps impl
     = executeHook hs1 action tn ps (\<lambda>args. executeHook hs2 action tn args impl)"
  by (induction hs1 arbitrary: ps) auto

lemma executeHook_rewrite:
  "executeHook (map rewrite_hook fs) action tn ps impl = impl (fold (\<lambda>f x. f x) fs ps)"
  by (induction fs arbitrary: ps) (auto simp: rewrite_hook_def)

lemma executeHook_inv:
  assumes "list_all (hook_ok P) hs" and "\<forall>ps t. params_wf ps \<longrightarrow> P t \<longrightarrow> P (snd (impl ps t))"
    and "params_wf ps" and "P t"
  shows "P (snd (executeHook hs action tn ps impl t))"
  using assms
proof (induction hs arbitrary: ps t)
  case Nil
  then show ?case by simp
next
  case (Cons h hs)
  have "\<forall>ps' t'. params_wf ps' \<longrightarrow> P t' \<longrightarrow> P (snd (executeHook hs action tn ps' impl t'))"
    using Cons.IH Cons.prems(1,2) by simp
  with Cons.prems(1,3,4) show ?case by (simp add: hook_ok_def)
qed

lemma wrong_params_inv [simp]: "snd (wrong_params t) = t"
  by (simp add: wrong_params_def)

lemma snd_apfst [simp]: "snd (apfst f r) = snd r"
  by (cases r) simp

lemma snd_internalInsert [simp]: "snd (internalInsert t e) = snd (internalInsertMany t [e])"
  by (simp add: internalInsert_def split: prod.split sum.split)

lemma snd_internalUpsert [simp]: "snd (internalUpsert t e) = snd (internalUpsertMany t [e])"
  by (simp add: internalUpsert_def split: prod.split sum.split)

lemma impls_inv:
  assumes "params_wf ps" and "table_inv t"
  shows "table_inv (snd (insert_impl ps t))" "table_inv (snd (remove_impl ps t))"
    "table_inv (snd (upsert_impl ps t))" "table_inv (snd (updateMany_impl ps t))"
    "table_inv (snd (updateWhere_impl ps t))"
proof -
  show "table_inv (snd (insert_impl ps t))"
    using assms by (cases ps) (simp_all add: internalInsertMany_def insert_loop_inv del: insert_loop.simps)
  show "table_inv (snd (remove_impl ps t))"
    using assms by (cases ps) (simp_all add: internalRemove_def internalRemoveMany_def remove_loop_inv del: remove_loop.simps)
  show "table_inv (snd (upsert_impl ps t))"
    using assms by (cases ps) (simp_all add: internalUpsertMany_def upsert_loop_inv del: upsert_loop.simps)
  show "table_inv (snd (updateMany_impl ps t))"
    using assms by (cases ps) (simp_all add: internalUpdateMany_inv)
  show "table_inv (snd (updateWhere_impl ps t))"
    using assms by (cases ps) (simp_all add: internalUpdateWhere_inv)
qed

lemma api_middleware: "api dbh th t ps = middleware dbh th (action_of ps) ps (impl_of ps) t"
  by (cases ps) (simp_all add: insert_api_def remove_api_def upsert_api_def updateMany_api_def
      updateWhere_api_def)

lemma impl_of_inv: "\<forall>ps' t. params_wf ps' \<longrightarrow> table_inv t \<longrightarrow> table_inv (snd (impl_of ps ps' t))"
  by (cases ps) (simp_all add: impls_inv)

lemma executeHook_passthrough:
  "list_all (\<lambda>h. h = passthrough) hs \<Longrightarrow> executeHook hs action tn ps impl = impl ps"
  by (induction hs arbitrary: ps) (auto simp: passthrough_def rewrite_hook_def)

section \<open>Properties of the chain\<close>

text \<open>
  The chain of a table is its database's hooks, in registration order,
  wrapped around its own hooks, wrapped around the implementation: the database's
  hooks run first and the table's hooks see what they pass to \<open>next\<close> (spec, section 3).
\<close>

lemma middleware_order:
  "middleware dbHooks tableHooks action ps impl t
     = executeHook dbHooks action (tname t) ps
         (\<lambda>args. executeHook tableHooks action (tname t) args impl) t"
  by (simp add: middleware_def executeHook_append)

text \<open>
  C21: when every hook rewrites the parameters and calls \<open>next\<close>, the
  implementation runs once, on the parameters rewritten by the database's hooks and
  then by the table's, each in registration order.
\<close>

theorem middleware_rewrite_order:
  "middleware (map rewrite_hook fs) (map rewrite_hook gs) action ps impl t
     = impl (fold (\<lambda>f x. f x) (fs @ gs) ps) t"
  by (simp add: middleware_def executeHook_rewrite map_append [symmetric] del: map_append)

text \<open>
  If every hook of the database and of the table keeps the table
  invariant whenever its continuation does, every public call (\<open>insert\<close>,
  \<open>remove\<close>, \<open>upsert\<close>, \<open>updateMany\<close>, \<open>updateWhere\<close>) with well-formed
  parameters keeps it, whatever the hooks rewrite, and whether they call \<open>next\<close>
  or not.
\<close>

lemma api_inv:
  assumes "list_all (hook_ok table_inv) (dbh @ th)" and "params_wf ps" and "table_inv t"
  shows "table_inv (snd (api dbh th t ps))"
  using executeHook_inv [OF assms(1) impl_of_inv assms(2,3)]
  by (simp add: api_middleware middleware_def)

text \<open>
  Hooks that pass their parameters on unchanged are transparent:
  each public entry point then returns what its internal operation returns and
  leaves the same table.
\<close>

lemma api_passthrough:
  assumes "list_all (\<lambda>h. h = passthrough) (dbh @ th)"
  shows "insert_api dbh th t e = apfst (map_sum id RKey) (internalInsert t e)
    \<and> remove_api dbh th t e = apfst (map_sum id RBool) (internalRemove t e)
    \<and> upsert_api dbh th t e = apfst (map_sum id RKey) (internalUpsert t e)
    \<and> updateMany_api dbh th t ds = apfst (map_sum id RKeys) (internalUpdateMany t ds)
    \<and> updateWhere_api dbh th t q cb = apfst (map_sum id (\<lambda>_. RUnit)) (internalUpdateWhere t q cb)"
  using executeHook_passthrough [OF assms]
  by (simp add: insert_api_def remove_api_def upsert_api_def updateMany_api_def
      updateWhere_api_def middleware_def)

text \<open>
  C22: an error thrown by a hook reaches the caller unchanged, through the
  hooks before it that pass their (possibly rewritten) parameters on, and neither
  the hooks after it nor the implementation run: the table is left as it was
  (spec, section 7).
\<close>

theorem hook_error_propagates:
  "middleware_with_hooks (map rewrite_hook fs @ throwing_hook e # post) action tn ps impl t = (Inl e, t)"
  by (simp add: middleware_with_hooks_def executeHook_append executeHook_rewrite throwing_hook_def)

end
