(* ===== verification/RemoveWhere.thy ===== *)
theory RemoveWhere
  imports Operations
begin

text \<open>
  \<open>removeWhere\<close>, an entry point the spec names (sections 2 and 6) whose code is not
  in the repository: the records of the filter, read with the query of \<open>many\<close>, are
  removed as one \<open>removeMany\<close> batch. The lemmas show that on a consistent table
  it removes exactly the records that satisfy a \<open>Where\<close>, and keeps the rest and
  the invariant.
\<close>

definition internalRemoveWhere :: "table \<Rightarrow> query \<Rightarrow> unit tres" where
  "internalRemoveWhere t q =
     (case many t (Some q) of
        Inl err \<Rightarrow> (Inl err, t)
      | Inr items \<Rightarrow> apfst (map_sum id (\<lambda>_. ())) (internalRemoveMany t items))"

section \<open>Lemmas\<close>

lemma stored_detach:
  assumes inv: "table_inv t" and r: "bt_get (tprimary t) k = Some r"
  shows "stored (detach k r t) = stored t - {r}"
proof -
  have d: "distinct (bt_keys (tprimary t))"
    using inv by (simp add: table_inv_map_of bt_wf_distinct)
  have inv': "table_inv (detach k r t)" using table_inv_detach [OF inv r] .
  have kr: "obj_get r (tpk t) = k" using stored_key [OF inv r] .
  show ?thesis
  proof (intro set_eqI iffI)
    fix x assume "x \<in> stored (detach k r t)"
    then obtain k' where "bt_get (tprimary (detach k r t)) k' = Some x"
      using stored_iff [OF inv'] by blast
    with d have k': "k' \<noteq> k" "bt_get (tprimary t) k' = Some x"
      by (auto split: if_splits)
    then have "obj_get x (tpk t) = k'" using stored_key [OF inv] by blast
    with k' kr stored_iff [OF inv] show "x \<in> stored t - {r}" by auto
  next
    fix x assume x: "x \<in> stored t - {r}"
    then obtain k' where k': "bt_get (tprimary t) k' = Some x"
      using stored_iff [OF inv] by blast
    with x r have "k' \<noteq> k" by auto
    with d k' have "bt_get (tprimary (detach k r t)) k' = Some x" by simp
    with stored_iff [OF inv'] show "x \<in> stored (detach k r t)" by blast
  qed
qed

lemma remove_loop_stored:
  "table_inv t \<Longrightarrow> set es \<subseteq> stored t \<Longrightarrow> distinct es \<Longrightarrow>
     \<exists>b t'. remove_loop es all evs t = (Inr b, t') \<and> table_inv t' \<and> stored t' = stored t - set es"
proof (induction es arbitrary: all evs t)
  case Nil
  then show ?case by (simp add: stored_def)
next
  case (Cons e es)
  obtain k where k: "bt_get (tprimary t) k = Some e"
    using Cons.prems(1,2) stored_iff by auto
  have ke: "obj_get e (tpk t) = k" using stored_key [OF Cons.prems(1) k] .
  let ?t1 = "detach k e t"
  have inv1: "table_inv ?t1" using table_inv_detach [OF Cons.prems(1) k] .
  have st1: "stored ?t1 = stored t - {e}" using stored_detach [OF Cons.prems(1) k] .
  have "set es \<subseteq> stored ?t1" using Cons.prems(2,3) st1 by auto
  moreover have "distinct es" using Cons.prems(3) by simp
  ultimately have "\<exists>b t'. remove_loop es all (evs @ [e]) ?t1 = (Inr b, t') \<and> table_inv t'
      \<and> stored t' = stored ?t1 - set es"
    using Cons.IH [OF inv1] by blast
  then obtain b t' where "remove_loop es all (evs @ [e]) ?t1 = (Inr b, t')" and "table_inv t'"
    and "stored t' = stored ?t1 - set es"
    by blast
  with k ke st1 show ?case by auto
qed

section \<open>Removing what a filter selects\<close>

text \<open>
  C9: on a consistent table, \<open>removeWhere\<close> with a non-empty
  \<open>Where\<close> succeeds, keeps the invariant, and leaves exactly the records that do not
  satisfy the filter.
\<close>

theorem internalRemoveWhere_correct:
  assumes "table_inv t" and "w \<noteq> []" and "null_free (FWhere w)"
    and "list_all (filter_typed (FWhere w)) (bt_values (tprimary t))"
  shows "\<exists>t'. internalRemoveWhere t \<lparr>qwhere = Some (FWhere w)\<rparr> = (Inr (), t') \<and> table_inv t'
           \<and> stored t' = {r \<in> stored t. \<not> filter_holds (FWhere w) r}"
proof -
  obtain rs where m: "many t (Some \<lparr>qwhere = Some (FWhere w)\<rparr>) = Inr rs" and d: "distinct rs"
    and s: "set rs = {r \<in> stored t. filter_holds (FWhere w) r}"
    using many_where_set [OF assms] by blast
  obtain b t' where "remove_loop rs True [] t = (Inr b, t')" and "table_inv t'"
    and "stored t' = stored t - set rs"
    using remove_loop_stored [OF assms(1) _ d, of True "[]"] s by auto
  with m s show ?thesis
    by (auto simp: internalRemoveWhere_def internalRemoveMany_def)
qed

end
