(* ===== verification/ManyCorrect.thy ===== *)
theory ManyCorrect
  imports Query
begin

text \<open>
  What \<open>many\<close> returns for every shape of filter. The candidates of any selection
  (\<open>Where\<close>, the \<open>splice\<close> intersection of an \<open>AND\<close>, the union of an \<open>OR\<close>)
  are stored records, so \<open>many\<close> is sound for all filters; for an \<open>OR\<close> of
  \<open>Where\<close>s the union keeps one record per primary key and loses none, so
  \<open>many\<close> is exact there.
\<close>

section \<open>Lemmas\<close>

lemma splice_loop_subset: "set (splice_loop keep cur es) \<subseteq> set cur"
proof (induction es arbitrary: cur)
  case (Cons e es)
  obtain i x where e: "e = (i, x)" by fastforce
  show ?case using Cons.IH set_splice1 [of i cur] by (auto simp: e)
qed simp

lemma splice_intersect_subset: "set (splice_intersect pk c a) \<subseteq> set a"
  by (simp add: splice_intersect_def splice_loop_subset)

lemma and_loop_subset:
  "(\<forall>c \<in> set cs. \<forall>xs. c = Some xs \<longrightarrow> set xs \<subseteq> S) \<Longrightarrow> (\<forall>xs. acc = Some xs \<longrightarrow> set xs \<subseteq> S) \<Longrightarrow>
     and_loop pk acc cs = Some ys \<Longrightarrow> set ys \<subseteq> S"
proof (induction cs arbitrary: acc)
  case (Cons c cs)
  show ?case
  proof (cases c)
    case None
    with Cons show ?thesis by simp
  next
    case (Some c')
    show ?thesis
    proof (cases "c' = []")
      case True
      with Cons.prems Some show ?thesis by simp
    next
      case False
      then obtain x xs where c': "c' = x # xs" by (cases c') auto
      have c'S: "set c' \<subseteq> S" using Cons.prems(1) Some by simp
      have cs: "\<forall>c \<in> set cs. \<forall>xs. c = Some xs \<longrightarrow> set xs \<subseteq> S" using Cons.prems(1) by simp
      show ?thesis
      proof (cases acc)
        case None
        with Cons.prems(3) Some c' have "and_loop pk (Some c') cs = Some ys" by simp
        with Cons.IH [OF cs] c'S show ?thesis by blast
      next
        case (Some a)
        with Cons.prems(3) \<open>c = Some c'\<close> c'
        have "and_loop pk (Some (splice_intersect pk c' a)) cs = Some ys" by simp
        moreover have "set (splice_intersect pk c' a) \<subseteq> S"
          using splice_intersect_subset [of pk c' a] Cons.prems(2) Some by blast
        ultimately show ?thesis using Cons.IH [OF cs] by blast
      qed
    qed
  qed
qed simp

lemma selectAndFilterItems_subset:
  "(\<forall>c \<in> set cs. \<forall>xs. c = Some xs \<longrightarrow> set xs \<subseteq> S) \<Longrightarrow> selectAndFilterItems pk cs = Some ys \<Longrightarrow>
     set ys \<subseteq> S"
proof (cases cs)
  case (Cons c rest)
  assume a: "\<forall>c \<in> set cs. \<forall>xs. c = Some xs \<longrightarrow> set xs \<subseteq> S" "selectAndFilterItems pk cs = Some ys"
  show ?thesis
  proof (cases rest)
    case Nil
    with a Cons show ?thesis by (simp add: selectAndFilterItems_def)
  next
    case (Cons c2 rest2)
    with \<open>cs = c # rest\<close> have cs: "cs = c # c2 # rest2" by simp
    have l: "and_loop pk c (c2 # rest2) = Some ys" using a(2) by (simp add: selectAndFilterItems_def cs)
    show ?thesis
    proof (rule and_loop_subset [OF _ _ l])
      show "\<forall>c \<in> set (c2 # rest2). \<forall>xs. c = Some xs \<longrightarrow> set xs \<subseteq> S" using a(1) cs by simp
      show "\<forall>xs. c = Some xs \<longrightarrow> set xs \<subseteq> S" using a(1) cs by simp
    qed
  qed
qed (simp add: selectAndFilterItems_def)

lemma those_Some: "those cs = Some xss \<Longrightarrow> xs \<in> set xss \<Longrightarrow> Some xs \<in> set cs"
proof (induction cs arbitrary: xss)
  case (Cons c cs)
  then show ?case by (auto split: option.splits)
qed simp

lemma selectOrFilterItems_subset:
  "(\<forall>c \<in> set cs. \<forall>xs. c = Some xs \<longrightarrow> set xs \<subseteq> S) \<Longrightarrow> selectOrFilterItems pk cs = Some ys \<Longrightarrow>
     set ys \<subseteq> S"
proof -
  assume a: "\<forall>c \<in> set cs. \<forall>xs. c = Some xs \<longrightarrow> set xs \<subseteq> S" "selectOrFilterItems pk cs = Some ys"
  then obtain xss where x: "those cs = Some xss" and ys: "ys = dedup_pk pk [] (concat xss)"
    by (auto simp: selectOrFilterItems_def)
  have "set (concat xss) \<subseteq> S" using a(1) those_Some [OF x] by fastforce
  with ys dedup_pk_distinct [of pk "[]" "concat xss"] show ?thesis by blast
qed

lemma selectWhereFilterItems_stored:
  "table_inv t \<Longrightarrow> selectWhereFilterItems t f = Some xs \<Longrightarrow> set xs \<subseteq> stored t"
proof (induction t f arbitrary: xs rule: selectWhereFilterItems.induct)
  case (1 t w)
  then show ?case
    using where_candidates [OF 1(1), of w] by (cases "w = []") (auto simp: selectWhereItems_def selectForWhere_def)
next
  case (2 t cs)
  have "\<forall>c \<in> set (map (selectWhereFilterItems t) cs). \<forall>xs. c = Some xs \<longrightarrow> set xs \<subseteq> stored t"
    using 2(1,2) by auto
  moreover have "selectAndFilterItems (tpk t) (map (selectWhereFilterItems t) cs) = Some xs"
    using 2(3) by simp
  ultimately show ?case by (rule selectAndFilterItems_subset)
next
  case (3 t cs)
  have "\<forall>c \<in> set (map (selectWhereFilterItems t) cs). \<forall>xs. c = Some xs \<longrightarrow> set xs \<subseteq> stored t"
    using 3(1,2) by auto
  moreover have "selectOrFilterItems (tpk t) (map (selectWhereFilterItems t) cs) = Some xs"
    using 3(3) by simp
  ultimately show ?case by (rule selectOrFilterItems_subset)
qed

lemma those_map_Some:
  "those (map g ws) = Some xss \<Longrightarrow> w \<in> set ws \<Longrightarrow> \<exists>xs \<in> set xss. g w = Some xs"
proof (induction ws arbitrary: xss)
  case (Cons v ws)
  then show ?case by (auto split: option.splits)
qed simp

lemma stored_pk_inj:
  "table_inv t \<Longrightarrow> r \<in> stored t \<Longrightarrow> r' \<in> stored t \<Longrightarrow> obj_get r (tpk t) = obj_get r' (tpk t) \<Longrightarrow> r = r'"
  using stored_iff stored_key by (metis option.inject)

lemma many_candidates: "many t (Some \<lparr>qwhere = Some f\<rparr>) = filterWhereItems (candidates t f) f"
  by (simp add: many_def)

lemma candidates_stored: "table_inv t \<Longrightarrow> set (candidates t f) \<subseteq> stored t"
  using selectWhereFilterItems_stored by (auto simp: candidates_def stored_def split: option.split)

lemma many_filter:
  assumes "table_inv t" and "null_free f" and "list_all (filter_typed f) (bt_values (tprimary t))"
  shows "many t (Some \<lparr>qwhere = Some f\<rparr>) = Inr (filter (filter_holds f) (candidates t f))"
proof -
  have "list_all (filter_typed f) (candidates t f)"
    using assms(3) candidates_stored [OF assms(1), of f] by (auto simp: list_all_iff stored_def)
  with assms(2) show ?thesis by (simp add: many_candidates filterWhereItems_filter)
qed

text \<open>
  C4: on a consistent table, \<open>many\<close> with any filter (\<open>Where\<close>, \<open>AND\<close>,
  \<open>OR\<close>, nested) whose matchers are typed and not \<open>null\<close> returns without error,
  and only stored records that satisfy the filter: the selection may lose matches
  (the \<open>AND\<close> intersection does), never add wrong ones (spec 4.5: the evaluator is
  the final authority).
\<close>

theorem many_sound:
  assumes "table_inv t" and "null_free f" and "list_all (filter_typed f) (bt_values (tprimary t))"
  shows "\<exists>rs. many t (Some \<lparr>qwhere = Some f\<rparr>) = Inr rs \<and> set rs \<subseteq> {r \<in> stored t. filter_holds f r}"
  using many_filter [OF assms] candidates_stored [OF assms(1), of f] by auto

lemma or_candidates_complete:
  assumes inv: "table_inv t" and ne: "\<forall>w \<in> set ws. w \<noteq> []"
    and r: "r \<in> stored t" and h: "filter_holds (FOr (map FWhere ws)) r"
  shows "r \<in> set (candidates t (FOr (map FWhere ws)))"
proof (cases "those (map (selectWhereItems t) ws)")
  case None
  then show ?thesis using r
    by (simp add: candidates_def selectOrFilterItems_def comp_def stored_def)
next
  case (Some xss)
  from h obtain w where w: "w \<in> set ws" and hw: "filter_holds (FWhere w) r" by auto
  obtain xs where xs: "xs \<in> set xss" "selectWhereItems t w = Some xs"
    using those_map_Some [OF Some w] by blast
  have "r \<in> set xs" using where_candidates [OF inv _ refl, of w] ne w xs(2) r hw by auto
  then have "r \<in> set (concat xss)" using xs(1) by auto
  then obtain x where x: "x \<in> set (dedup_pk (tpk t) [] (concat xss))" "obj_get x (tpk t) = obj_get r (tpk t)"
    using dedup_pk_distinct [of "tpk t" "[]" "concat xss"] by (metis DiffI empty_iff empty_set image_iff)
  have cands: "candidates t (FOr (map FWhere ws)) = dedup_pk (tpk t) [] (concat xss)"
    using Some by (simp add: candidates_def selectOrFilterItems_def comp_def)
  then have "x \<in> stored t" using candidates_stored [OF inv, of "FOr (map FWhere ws)"] x(1) by auto
  with stored_pk_inj [OF inv _ r x(2)] x(1) cands show ?thesis by simp
qed

text \<open>
  C14: on a consistent table, \<open>many\<close> with an \<open>OR\<close> of non-empty
  \<open>Where\<close>s returns exactly the stored records that satisfy one of them: the union
  by primary key loses none (spec, section 8).
\<close>

theorem many_or_where_correct:
  assumes "table_inv t" and "\<forall>w \<in> set ws. w \<noteq> []" and "null_free (FOr (map FWhere ws))"
    and "list_all (filter_typed (FOr (map FWhere ws))) (bt_values (tprimary t))"
  shows "\<exists>rs. many t (Some \<lparr>qwhere = Some (FOr (map FWhere ws))\<rparr>) = Inr rs
           \<and> set rs = {r \<in> stored t. filter_holds (FOr (map FWhere ws)) r}"
  using many_filter [OF assms(1,3,4)] candidates_stored [OF assms(1)]
    or_candidates_complete [OF assms(1,2)] by auto

text \<open>The primary index lists its records by ascending key, and so does any part of it.\<close>

lemma primary_part_sorted:
  assumes "table_inv t"
  shows "sorted_wrt (<) (map (\<lambda>r. obj_get r (tpk t)) (map snd (filter P (tprimary t))))"
proof -
  have keys: "\<forall>(k, r) \<in> set (tprimary t). obj_get r (tpk t) = k"
    and wf: "sorted_wrt (<) (map fst (tprimary t))"
    using assms by (auto simp: table_inv_def primary_ok_def list_all_iff bt_wf_def)
  from keys have "\<forall>(k, r) \<in> set (filter P (tprimary t)). obj_get r (tpk t) = k" by auto
  then have "map fst (filter P (tprimary t)) = map (\<lambda>r. obj_get r (tpk t)) (map snd (filter P (tprimary t)))"
    by (rule map_fst_determined)
  moreover from wf have "sorted_wrt (<) (map fst (filter P (tprimary t)))"
    by (simp add: sorted_wrt_map sorted_wrt_filter)
  ultimately show ?thesis by (simp only:)
qed

text \<open>
  C15: \<open>many\<close> lists records by ascending primary key: every stored record
  when there is no filter, and the matches of a \<open>Where\<close> that names the primary
  key, which is read from the primary index (\<open>selectForMatcher\<close> walks the
  sorted keys, \<open>filterWhereItems\<close> keeps their order).
\<close>

theorem many_pk_order:
  assumes inv: "table_inv t" and pk: "map_of w (tpk t) \<noteq> None"
    and rs: "many t (Some \<lparr>qwhere = Some (FWhere w)\<rparr>) = Inr rs"
  shows "sorted_wrt (<) (map (\<lambda>r. obj_get r (tpk t)) rs)
    \<and> (\<exists>all. many t None = Inr all \<and> sorted_wrt (<) (map (\<lambda>r. obj_get r (tpk t)) all)
           \<and> set all = stored t)"
proof
  obtain m where m: "map_of w (tpk t) = Some m" using pk by auto
  then have "w \<noteq> []" by auto
  with m have "candidates t (FWhere w) = selectForMatcher (tprimary t) m"
    by (simp add: candidates_def selectWhereItems_def selectForWhere_def)
  with rs have "rs = filter (\<lambda>x. matches x (FWhere w) = Inr True) (selectForMatcher (tprimary t) m)"
    by (simp add: many_candidates filterWhereItems_def filter_m_Inr_filter)
  then show "sorted_wrt (<) (map (\<lambda>r. obj_get r (tpk t)) rs)"
    using primary_part_sorted [OF inv] by (simp add: selectForMatcher_def filter_map filter_filter comp_def)
next
  show "\<exists>all. many t None = Inr all \<and> sorted_wrt (<) (map (\<lambda>r. obj_get r (tpk t)) all) \<and> set all = stored t"
    using primary_part_sorted [OF inv, of "\<lambda>_. True"] by (simp add: many_def bt_values_def stored_def)
qed

lemma first_index_absent: "p \<notin> fst ` set idx \<Longrightarrow> first_index [(p, m)] idx = None"
  by (induction "[(p, m)]" idx rule: first_index.induct) auto

text \<open>
  C16: a \<open>Where\<close> with a bare \<open>null\<close> matcher on a property that is neither
  the primary key nor indexed makes \<open>many\<close> throw a \<open>TypeError\<close> on every non-empty
  table (\<open>"$equals" in null\<close>, \<open>matchers.ts\<close>): the full scan evaluates the matcher
  on the first record.
\<close>

theorem many_null_throws:
  assumes "stored t \<noteq> {}" and "p \<noteq> tpk t" and "p \<notin> fst ` set (tindexes t)"
  shows "many t (Some \<lparr>qwhere = Some (FWhere [(p, MVal JNull)])\<rparr>) = Inl (TypeError ''in operator applied to null'')"
proof -
  have "candidates t (FWhere [(p, MVal JNull)]) = bt_values (tprimary t)"
    using assms(2,3) by (simp add: candidates_def selectWhereItems_def selectForWhere_def first_index_absent)
  moreover have "bt_values (tprimary t) \<noteq> []" using assms(1) by (simp add: stored_def)
  ultimately show ?thesis
    by (simp add: many_candidates filterWhereItems_def filter_m_Inl matchesWhere_def matchesMatcher_def)
qed

end
