(* ===== verification/Spec2Isabelle.thy ===== *)
theory Spec2Isabelle
  imports Interleaving AnalyzeRaw Middleware RemoveWhere ManyCorrect
begin

text \<open>
  \<^bold>\<open>A verification model of blinkdb.\<close> blinkdb (\<open>src/packages\<close>) is an in-memory
  database: tables of records keyed by a primary key, ordered secondary indexes, a
  filter language, a query planner, and a middleware chain around every operation.
  This development models its code as HOL functions and proves what makes it correct,
  and where it is not.

  \<^bold>\<open>Theories and the code they model.\<close>
  \<^item> \<open>Prelude\<close>: JavaScript values (\<open>jsval\<close>, numbers as integers), the relational
    operators (\<open>js_lt\<close>, \<open>js_le\<close>), objects as association lists (\<open>obj_get\<close>), the
    error kinds (\<open>core/errors.ts\<close> and runtime \<open>TypeError\<close>s), results
    \<open>(error + 'a) \<times> state\<close>, and \<open>indexOf\<close>/\<open>splice\<close>.
  \<^item> \<open>OrderedIndex\<close>: the sorted-btree library as a sorted association list
    (\<open>bt_get\<close>, \<open>bt_set\<close>, \<open>bt_delete\<close>), from spec 4.1; not repository code.
  \<^item> \<open>Table\<close>: the table state (\<open>table[BlinkKey]\<close>) as a record. Records are shared
    by reference between the primary index and the buckets, so a bucket holds primary
    keys dereferenced through the primary index. Also the bucket primitives of
    \<open>update.ts\<close> (\<open>index_add\<close>, \<open>index_remove\<close>) and the invariant \<open>table_inv\<close>,
    proved equal to the spec's statement (\<open>index_exact\<close>).
  \<^item> \<open>Matchers\<close>: \<open>core/src/query/filter/matchers.ts\<close> line by line; the filter
    evaluator (\<open>matches\<close>, \<open>filterWhereItems\<close>) from spec 4.3.
  \<^item> \<open>Query\<close>: \<open>select/where.ts\<close>, \<open>select/and.ts\<close> (the intersection by
    \<open>splice\<close>), the OR selection from spec 4.5, and \<open>core/src/core/many.ts\<close>
    (\<open>candidates\<close> is its choice between the selection and a full scan).
  \<^item> \<open>ManyCorrect\<close>: \<open>many\<close> for every shape of filter. The selections return
    stored records only, and the \<open>OR\<close> union loses none. Also the order in which
    \<open>many\<close> lists records.
  \<^item> \<open>Mutation\<close>: \<open>update.ts\<close>, \<open>updateMany.ts\<close> (the field loop
    \<open>apply_diff\<close>, the batch \<open>update_loop\<close>), \<open>internalInsert\<close>,
    \<open>internalRemove\<close>, \<open>internalUpsert\<close>; the batch operations not in the repository
    (\<open>insertMany\<close>, \<open>removeMany\<close>, \<open>upsertMany\<close>) from spec 4.6. A batch that throws
    keeps what it committed and dispatches no event.
  \<^item> \<open>UpdateWhere\<close>: \<open>updateWhere.ts\<close>, with \<open>Promise.all\<close> as the first rejection in
    list order.
  \<^item> \<open>Operations\<close>: the entry points on every branch, against the primary index, the
    event log and \<open>many\<close>.
  \<^item> \<open>Interleaving\<close>: runs of mutations, and the step relation \<open>db_step\<close> in which an
    update-where suspends at \<open>await Promise.all\<close> and resumes later, with other
    operations in between (spec section 5).
  \<^item> \<open>RemoveWhere\<close>: \<open>removeWhere\<close>, from the spec.
  \<^item> \<open>Analyze\<close>: \<open>query/analyze/index.ts\<close>, \<open>or.ts\<close>, \<open>where.ts\<close>. The
    \<open>analyzeMatcher\<close> and \<open>analyzeAnd\<close> functions are from spec 4.4.
  \<^item> \<open>AnalyzeRaw\<close>: the same planner read on the filter object. It dispatches by the
    property tests \<open>"AND" in filter\<close> and \<open>"OR" in filter\<close> and recurses into the
    children it looks up (\<open>analyze_raw\<close>, a \<open>function\<close> with a termination
    proof by object size). The lemmas relate it to \<open>analyze\<close> on parsed filters;
    they check the two readings of \<open>index.ts\<close> against each other, not the program.
  \<^item> \<open>Middleware\<close>: \<open>events/Middleware.ts\<close>, \<open>events/types.ts\<close>, and the public
    wrappers of \<open>insert.ts\<close>, \<open>remove.ts\<close>, \<open>upsert.ts\<close>, \<open>updateMany.ts\<close> and
    \<open>updateWhere.ts\<close>. A hook is any function of the context and the table.
  \<^item> This theory: example tables, concrete behaviours that illustrate the findings
    (evaluations on fixed inputs, kept as lemmas and not counted as properties), and
    the witnesses of the theorems with hypotheses.

  \<^bold>\<open>What is proved.\<close>
  \<^item> Invariants: every run of mutations (each succeeding or throwing part-way) and
    every reachable interleaving of operations with suspended update-wheres keep the
    table consistent.
  \<^item> Query correctness: \<open>many\<close> with a \<open>Where\<close> is exact and independent of the
    indexes; with any filter it is sound (stored, matching records only); with an
    \<open>OR\<close> of \<open>Where\<close>s it is exact and returns each primary key once;
    without a filter, or with a \<open>Where\<close> on the primary key, it lists records by
    ascending primary key (through a secondary index they come in index order); a
    bare \<open>null\<close> matcher on an unindexed property throws on every non-empty table;
    the matcher refines the spec's matcher language; the \<open>AND\<close> intersection is
    the filter by primary key whenever it drops at most one candidate (the converse is
    not proved; a concrete run shows it going wrong on a second drop).
  \<^item> Functional and error behaviour of insert, remove, update, updateMany,
    updateWhere and removeWhere, including the insert/lookup and remove/lookup round
    trips; a failing updateMany keeps its committed prefix and dispatches nothing (no
    rollback), and a successful one reports the final stored record of each key as
    its new entity.
  \<^item> The planner's minimum, bounds and point lookups, and the sum of
    \<open>Number.MAX_SAFE_INTEGER\<close> per branch for an \<open>OR\<close> with no usable index.
  \<^item> The order in which the hook chain rewrites parameters, and the propagation of
    a hook's error.

  \<^bold>\<open>Where code and spec disagree\<close> (the findings): the AND intersection loses
  matches; a \<open>null\<close> literal matcher throws; update events alias the live record;
  \<open>update\<close> throws untyped errors and bypasses the middleware; the planner ignores
  zero costs and adds its "unknown" sentinel into OR sums; empty filters return
  nothing; the selector reads \<open>$and\<close>/\<open>$or\<close> where the planner reads
  \<open>AND\<close>/\<open>OR\<close>.

  \<^bold>\<open>Modelling choices.\<close>
  \<^item> Numbers are integers and costs are exact naturals: floating-point rounding in
    \<open>Math.round\<close> of a fan-out is not modelled.
  \<^item> Cloning is on, so callbacks see copies.
  \<^item> Callbacks and hooks run to completion. The only suspension modelled is
    updateWhere's \<open>await\<close>; hooks that suspend are not.
  \<^item> Every loop of the code is recursion over a finite list or a finite object, so
    every definition is total and needs no fuel. The planner on filter objects is the
    one recursion that is not structural; its termination is proved.
  \<^item> The \<open>from\<close> cursor of selection and analysis is not modelled.

  \<^bold>\<open>Not modelled.\<close>
  \<^item> Table and database construction, persistence, and cloning (out of scope, and not
    in the repository).
  \<^item> \<open>count\<close>, \<open>first\<close>/\<open>one\<close>, \<open>clear\<close> and \<open>watch\<close>: the spec gives them no
    semantics beyond their names.
  \<^item> Mutation of stored objects through aliases when cloning is off.
  \<^item> What remains of the source is TypeScript types (\<open>HookMethods\<close>, \<open>Diff\<close>,
    \<open>Ids\<close>, overload signatures), imports and comments. \<open>HookMethods\<close> lists
    signatures for \<open>count\<close>, \<open>first\<close>, \<open>one\<close>, \<open>clear\<close> and \<open>watch\<close>, whose
    implementations are not in the repository and which the spec does not define. The
    model types the hooks (\<open>hook\<close>) and the parameters and results of the routed
    actions (\<open>hook_params\<close>, \<open>hook_return\<close>). A \<open>Diff\<close> is an object, and
    \<open>update\<close> on a diff without a primary key takes its error path.
  \<^item> Cyclic filter objects: a JavaScript object may contain itself and the planner
    would then recurse until the stack overflows; filter objects here are finite trees.
\<close>

section \<open>Example data\<close>

text \<open>The spec's scenario (section 8): users keyed by \<open>id\<close>, with \<open>age\<close> indexed.\<close>

abbreviation alice :: entity where
  "alice \<equiv> [(''id'', JNum 1), (''name'', JStr ''Alice''), (''age'', JNum 23)]"

abbreviation bob :: entity where
  "bob \<equiv> [(''id'', JNum 2), (''name'', JStr ''Bob''), (''age'', JNum 45)]"

abbreviation charlie :: entity where
  "charlie \<equiv> [(''id'', JNum 3), (''name'', JStr ''Charlie''), (''age'', JNum 34)]"

abbreviation users_empty :: table where
  "users_empty \<equiv> \<lparr>tname = ''users'', tpk = ''id'', tprimary = [],
     tindexes = [(''age'', [])], tevents = []\<rparr>"

abbreviation users :: table where
  "users \<equiv> \<lparr>tname = ''users'', tpk = ''id'',
     tprimary = [(JNum 1, alice), (JNum 2, bob), (JNum 3, charlie)],
     tindexes = [(''age'', [(JNum 23, [JNum 1]), (JNum 34, [JNum 3]), (JNum 45, [JNum 2])])],
     tevents = []\<rparr>"

abbreviation age_gte_30 :: "(string \<times> matcher) list" where
  "age_gte_30 \<equiv> [(''age'', MObj [(''$gte'', JNum 30)])]"

text \<open>A table with two secondary indexes, for the intersection of an \<open>AND\<close>.\<close>

abbreviation ra :: entity where "ra \<equiv> [(''id'', JNum 1), (''name'', JStr ''x''), (''age'', JNum 20)]"
abbreviation rb :: entity where "rb \<equiv> [(''id'', JNum 2), (''name'', JStr ''y''), (''age'', JNum 20)]"
abbreviation rc :: entity where "rc \<equiv> [(''id'', JNum 3), (''name'', JStr ''z''), (''age'', JNum 20)]"

abbreviation people :: table where
  "people \<equiv> \<lparr>tname = ''people'', tpk = ''id'',
     tprimary = [(JNum 1, ra), (JNum 2, rb), (JNum 3, rc)],
     tindexes = [(''age'', [(JNum 20, [JNum 1, JNum 2, JNum 3])]),
                 (''name'', [(JStr ''x'', [JNum 1]), (JStr ''y'', [JNum 2]), (JStr ''z'', [JNum 3])])],
     tevents = []\<rparr>"

abbreviation age20_and_z :: filter_expr where
  "age20_and_z \<equiv> FAnd [FWhere [(''age'', MVal (JNum 20))], FWhere [(''name'', MVal (JStr ''z''))]]"

text \<open>Alice after one and after two updates of her age.\<close>

abbreviation alice24 :: entity where
  "alice24 \<equiv> [(''id'', JNum 1), (''name'', JStr ''Alice''), (''age'', JNum 24)]"
abbreviation alice25 :: entity where
  "alice25 \<equiv> [(''id'', JNum 1), (''name'', JStr ''Alice''), (''age'', JNum 25)]"

text \<open>
  The update-where callback of the spec's example (section 6): one more year of age,
  the primary key kept. The interleavings run it over the users aged 30 or more.
\<close>

definition bump_age :: "entity \<Rightarrow> diff" where
  "bump_age e = [(''id'', obj_get e ''id''),
     (''age'', case obj_get e ''age'' of JNum n \<Rightarrow> JNum (n + 1) | v \<Rightarrow> v)]"

abbreviation s0 :: db_state where "s0 \<equiv> \<lparr>dtable = users, suspended = []\<rparr>"

abbreviation s1 :: db_state where
  "s1 \<equiv> s0\<lparr>suspended := suspended s0 @ [([charlie, bob], bump_age)]\<rparr>"

abbreviation s2_update :: db_state where
  "s2_update \<equiv> s1\<lparr>dtable := apply_mutation (dtable s1) (MUpdate [(''id'', JNum 2), (''age'', JNum 50)])\<rparr>"

abbreviation s2_remove :: db_state where
  "s2_remove \<equiv> s1\<lparr>dtable := apply_mutation (dtable s1) (MRemoveMany [[(''id'', JNum 2)]])\<rparr>"

abbreviation resumed :: "db_state \<Rightarrow> db_state" where
  "resumed s \<equiv> \<lparr>dtable = snd (updateWhere_resume (dtable s) [charlie, bob] bump_age), suspended = [] @ []\<rparr>"

lemmas example_simps = table_inv_def primary_ok_def index_ok_def bt_wf_def bt_get_def bucket_def
  valid_pk_def less_jsval_def less_eq_jsval_def bt_values_def obj_wf_def

section \<open>Concrete behaviours\<close>

text \<open>The update-where over the users aged 30 or more reads Charlie and Bob and suspends.\<close>

lemma db_step_s0_s1: "db_step s0 s1"
    by (rule db_step.suspend [where q = "\<lparr>qwhere = Some (FWhere age_gte_30)\<rparr>"])
      (simp_all add: bump_age_def obj_wf_def many_def candidates_def selectWhereItems_def selectForWhere_def
        selectForMatcher_def filterWhereItems_def matchesWhere_def matcher_defs example_simps deref_def)

lemma reachable_s1: "reachable s1"
proof -
  have "reachable s0" by (rule reachable.start) (simp add: example_simps)
  then show ?thesis using db_step_s0_s1 by (rule reachable.step)
qed

text \<open>
  The intersection of \<open>select/and.ts\<close> splices the live array at the
  indexes of a snapshot, so after its first removal it removes the wrong records:
  over three records of age 20, \<open>AND [age = 20, name = "z"]\<close> keeps the record
  named "y" and \<open>many\<close> returns nothing, although the record named "z" is stored
  and satisfies the filter (spec 4.5 asks for the intersection by primary key).
\<close>

theorem and_intersection_loses_match:
  "table_inv people \<and> rc \<in> stored people \<and> filter_holds age20_and_z rc
   \<and> selectWhereFilterItems people age20_and_z = Some [rb]
   \<and> many people (Some \<lparr>qwhere = Some age20_and_z\<rparr>) = Inr []"
  by (simp add: example_simps stored_def many_def candidates_def selectWhereItems_def selectForWhere_def
      selectForMatcher_def selectAndFilterItems_def splice_intersect_def list_model_simps
      filterWhereItems_def matchesWhere_def matcher_defs deref_def)

text \<open>An object matcher with two tags is read by its first tag: \<open>40\<close> matches \<open>{$lt: 30, $gte: 20}\<close>.\<close>

lemma matcher_first_tag_example:
  "matchesMatcher (JNum 40) (MObj [(''$lt'', JNum 30), (''$gte'', JNum 20)]) = Inr True"
  by (simp add: matcher_defs js_defs)

text \<open>
  An AND written the way \<open>select/and.ts\<close> reads it, \<open>{$and: [...]}\<close>, is planned
  as a \<open>Where\<close> on a property named \<open>$and\<close>: no index, the full-scan estimate.
\<close>

lemma analyze_dollar_and:
  "analyze_raw users (RObj [(''$and'', RArray [raw_of (FWhere age_gte_30)])]) = MAX_SAFE_INTEGER"
  by (simp add: where_of_def property_complexity_def analyzeWhere_def)

text \<open>
  A \<open>Where\<close> with a bare \<open>null\<close> matcher makes \<open>many\<close> throw a
  \<open>TypeError\<close> on a non-empty table instead of returning the records whose property
  is \<open>null\<close> (none here).
\<close>

theorem many_null_throws_witness:
  "{r \<in> stored users. filter_holds (FWhere [(''name'', MVal JNull)]) r} = {}
   \<and> many users (Some \<lparr>qwhere = Some (FWhere [(''name'', MVal JNull)])\<rparr>)
       = Inl (TypeError ''in operator applied to null'')"
proof -
  have h: "stored users \<noteq> {}" "''name'' \<noteq> tpk users" "''name'' \<notin> fst ` set (tindexes users)"
    by (simp_all add: stored_def bt_values_def)
  have "{r \<in> stored users. filter_holds (FWhere [(''name'', MVal JNull)]) r} = {}"
    by (auto simp: example_simps stored_def bt_values_def)
  then show ?thesis using ManyCorrect.many_null_throws [OF h] by blast
qed

text \<open>
  The update event of a batch carries, as the new entity of each element,
  the stored object itself, read when the event is dispatched: a batch that updates
  Alice twice reports her final state for both elements, and the pair of the first
  element is not the snapshot after that element (spec 4.6 asks for snapshots).
\<close>

theorem internalUpdateMany_event_live_witness:
  "internalUpdateMany users [[(''id'', JNum 1), (''age'', JNum 24)], [(''id'', JNum 1), (''age'', JNum 25)]]
   = (Inr [JNum 1, JNum 1], \<lparr>tname = ''users'', tpk = ''id'',
       tprimary = [(JNum 1, alice25), (JNum 2, bob), (JNum 3, charlie)],
       tindexes = [(''age'', [(JNum 23, []), (JNum 24, []), (JNum 25, [JNum 1]), (JNum 34, [JNum 3]),
                             (JNum 45, [JNum 2])])],
       tevents = [UpdateEvent [(alice, alice25), (alice24, alice25)]]\<rparr>)
   \<and> (\<exists>olds. length olds = 2 \<and> tevents \<lparr>tname = ''users'', tpk = ''id'',
       tprimary = [(JNum 1, alice25), (JNum 2, bob), (JNum 3, charlie)],
       tindexes = [(''age'', [(JNum 23, []), (JNum 24, []), (JNum 25, [JNum 1]), (JNum 34, [JNum 3]),
                             (JNum 45, [JNum 2])])],
       tevents = [UpdateEvent [(alice, alice25), (alice24, alice25)]]\<rparr> = [UpdateEvent (zip olds [alice25, alice25])])"
proof -
  have h: "table_inv users"
    "list_all obj_wf [[(''id'', JNum 1), (''age'', JNum 24)], [(''id'', JNum 1), (''age'', JNum 25)]]"
    "internalUpdateMany users [[(''id'', JNum 1), (''age'', JNum 24)], [(''id'', JNum 1), (''age'', JNum 25)]]
       = (Inr [JNum 1, JNum 1], \<lparr>tname = ''users'', tpk = ''id'',
       tprimary = [(JNum 1, alice25), (JNum 2, bob), (JNum 3, charlie)],
       tindexes = [(''age'', [(JNum 23, []), (JNum 24, []), (JNum 25, [JNum 1]), (JNum 34, [JNum 3]),
                             (JNum 45, [JNum 2])])],
       tevents = [UpdateEvent [(alice, alice25), (alice24, alice25)]]\<rparr>)"
    by (simp_all add: obj_wf_def example_simps internalUpdateMany_def update_entity_def set_field_def deref_def
        index_remove_def index_add_def set_index_def Let_def dispatch_def)
  show ?thesis using Operations.internalUpdateMany_event_live [OF h] h by (simp add: deref_def example_simps numeral_2_eq_2)
qed

text \<open>
  A batch update whose second diff names no record throws
  \<open>ItemNotFound\<close> after committing the first diff, with its index move, and
  dispatches no event for it.
\<close>

theorem internalUpdateMany_no_rollback_witness:
  "internalUpdateMany users [[(''id'', JNum 1), (''age'', JNum 24)], [(''id'', JNum 9)]]
   = (Inl (ItemNotFound (JNum 9)),
      \<lparr>tname = ''users'', tpk = ''id'',
       tprimary = [(JNum 1, alice24), (JNum 2, bob), (JNum 3, charlie)],
       tindexes = [(''age'', [(JNum 23, []), (JNum 24, [JNum 1]), (JNum 34, [JNum 3]), (JNum 45, [JNum 2])])],
       tevents = []\<rparr>)"
proof -
  have h: "table_inv users" "list_all obj_wf ([[(''id'', JNum 1), (''age'', JNum 24)]] @ [[(''id'', JNum 9)]])"
    "internalUpdateMany users [[(''id'', JNum 1), (''age'', JNum 24)]]
       = (Inr [JNum 1], \<lparr>tname = ''users'', tpk = ''id'',
       tprimary = [(JNum 1, alice24), (JNum 2, bob), (JNum 3, charlie)],
       tindexes = [(''age'', [(JNum 23, []), (JNum 24, [JNum 1]), (JNum 34, [JNum 3]), (JNum 45, [JNum 2])])],
       tevents = [UpdateEvent [(alice, alice24)]]\<rparr>)"
    "fst (update_entity InvalidPrimaryKey ItemNotFound [(''id'', JNum 9)]
       \<lparr>tname = ''users'', tpk = ''id'',
       tprimary = [(JNum 1, alice24), (JNum 2, bob), (JNum 3, charlie)],
       tindexes = [(''age'', [(JNum 23, []), (JNum 24, [JNum 1]), (JNum 34, [JNum 3]), (JNum 45, [JNum 2])])],
       tevents = [UpdateEvent [(alice, alice24)]]\<rparr>) = Inl (ItemNotFound (JNum 9))"
    by (simp_all add: obj_wf_def example_simps internalUpdateMany_def update_entity_def set_field_def deref_def
        index_remove_def index_add_def set_index_def Let_def dispatch_def)
  show ?thesis using Operations.internalUpdateMany_no_rollback [OF h, of "[]"] by simp
qed

text \<open>
  \<open>analyzeWhere\<close> skips a property whose estimate is 0 (the test
  \<open>complexity && ...\<close>): a range on the indexed \<open>age\<close> that no key satisfies is
  the cheapest path, yet the estimate is \<open>Number.MAX_SAFE_INTEGER\<close>, the
  value for "nothing indexed" (spec 4.4 asks for the minimum over the indexed
  properties).
\<close>

theorem analyze_zero_cost_ignored:
  "property_complexity users ''age'' (MObj [(''$gt'', JNum 100)]) = Some 0
   \<and> analyzeWhere users [(''age'', MObj [(''$gt'', JNum 100)])] = MAX_SAFE_INTEGER"
  by (simp add: example_simps property_complexity_def index_complexity_def analyzeMatcher_def
      bt_keys_def bt_size_def bt_total_item_size_def analyzeWhere_def)


text \<open>
  An update-where over the users aged 30 or more reads Charlie and
  Bob and suspends; an update sets Bob's age to 50; the update-where resumes and
  writes the age it computed from the record it read, 46: the update is lost.
\<close>

theorem interleaving_lost_update:
  "db_step s0 s1 \<and> db_step s1 s2_update \<and> db_step s2_update (resumed s2_update)
   \<and> obj_get (deref (dtable s2_update) (JNum 2)) ''age'' = JNum 50
   \<and> obj_get (deref (dtable (resumed s2_update)) (JNum 2)) ''age'' = JNum 46"
proof -
  have "db_step s0 s1" by (rule db_step_s0_s1)
  moreover have "db_step s1 s2_update" by (rule db_step.call) (simp add: obj_wf_def)
  moreover have "db_step s2_update (resumed s2_update)"
    by (rule db_step.resume [where pre = "[]" and post = "[]"]) simp
  moreover have "obj_get (deref (dtable s2_update) (JNum 2)) ''age'' = JNum 50
      \<and> obj_get (deref (dtable (resumed s2_update)) (JNum 2)) ''age'' = JNum 46"
    by (simp add: bump_age_def updateWhere_resume_def check_pk_unchanged_def update_def
        internalUpdateMany_def update_entity_def set_field_def deref_def index_remove_def
        index_add_def set_index_def Let_def example_simps)
  ultimately show ?thesis by blast
qed

text \<open>
  When Bob is removed while the update-where is suspended, its
  resumption throws \<open>ItemNotFound\<close> for Bob after it has committed Charlie's new age.
\<close>

theorem interleaving_removed_record:
  "db_step s1 s2_remove \<and> db_step s2_remove (resumed s2_remove)
   \<and> fst (updateWhere_resume (dtable s2_remove) [charlie, bob] bump_age) = Inl (ItemNotFound (JNum 2))
   \<and> obj_get (deref (dtable (resumed s2_remove)) (JNum 3)) ''age'' = JNum 35"
proof -
  have "db_step s1 s2_remove" by (rule db_step.call) simp
  moreover have "db_step s2_remove (resumed s2_remove)"
    by (rule db_step.resume [where pre = "[]" and post = "[]"]) simp
  moreover have "fst (updateWhere_resume (dtable s2_remove) [charlie, bob] bump_age) = Inl (ItemNotFound (JNum 2))
      \<and> obj_get (deref (dtable (resumed s2_remove)) (JNum 3)) ''age'' = JNum 35"
    by (simp add: bump_age_def updateWhere_resume_def check_pk_unchanged_def internalRemoveMany_def
        detach_def index_detach_def internalUpdateMany_def update_entity_def set_field_def deref_def
        index_remove_def index_add_def set_index_def Let_def example_simps dispatch_def)
  ultimately show ?thesis by blast
qed

section \<open>Witnesses\<close>

theorem run_mutations_inv_witness:
  "table_inv users_empty
   \<and> list_all mutation_wf [MInsertMany [alice, bob, charlie], MUpdate [(''id'', JNum 1), (''age'', JNum 24)],
        MRemoveMany [bob]]
   \<and> table_inv (run_mutations users_empty [MInsertMany [alice, bob, charlie],
        MUpdate [(''id'', JNum 1), (''age'', JNum 24)], MRemoveMany [bob]])"
proof -
  have h1: "table_inv users_empty" by (simp add: example_simps)
  have h2: "list_all mutation_wf [MInsertMany [alice, bob, charlie],
      MUpdate [(''id'', JNum 1), (''age'', JNum 24)], MRemoveMany [bob]]"
    by (simp add: example_simps)
  show ?thesis using Interleaving.run_mutations_inv [OF h1 h2] h1 h2 by blast
qed

theorem matchesMatcher_spec_witness:
  "kind_typed (classify (MObj [(''$gte'', JNum 20)])) (JNum 23)
   \<and> matchesMatcher (JNum 23) (MObj [(''$gte'', JNum 20)]) = Inr True"
  using Matchers.matchesMatcher_spec [of "MObj [(''$gte'', JNum 20)]" "JNum 23"]
  by (simp add: less_eq_jsval_def)

theorem many_where_correct_witness:
  "table_inv users \<and> age_gte_30 \<noteq> [] \<and> null_free (FWhere age_gte_30)
   \<and> list_all (filter_typed (FWhere age_gte_30)) (bt_values (tprimary users))
   \<and> (\<exists>rs. many users (Some \<lparr>qwhere = Some (FWhere age_gte_30)\<rparr>) = Inr rs \<and> distinct rs
          \<and> set rs = {r \<in> stored users. filter_holds (FWhere age_gte_30) r})"
proof -
  have h: "table_inv users" "age_gte_30 \<noteq> []" "null_free (FWhere age_gte_30)"
    "list_all (filter_typed (FWhere age_gte_30)) (bt_values (tprimary users))"
    by (simp_all add: example_simps)
  show ?thesis using Query.many_where_correct [OF h] h by blast
qed

theorem many_index_independent_witness:
  "table_inv users \<and> age_gte_30 \<noteq> [] \<and> null_free (FWhere age_gte_30)
   \<and> list_all (filter_typed (FWhere age_gte_30)) (bt_values (tprimary users))
   \<and> (\<exists>rs rs'. many users (Some \<lparr>qwhere = Some (FWhere age_gte_30)\<rparr>) = Inr rs
          \<and> many (users\<lparr>tindexes := []\<rparr>) (Some \<lparr>qwhere = Some (FWhere age_gte_30)\<rparr>) = Inr rs'
          \<and> set rs = set rs')"
proof -
  have h: "table_inv users" "age_gte_30 \<noteq> []" "null_free (FWhere age_gte_30)"
    "list_all (filter_typed (FWhere age_gte_30)) (bt_values (tprimary users))"
    by (simp_all add: example_simps)
  show ?thesis using Query.many_index_independent [OF h] h by blast
qed

theorem update_ok_witness:
  "table_inv users \<and> obj_wf [(''id'', JNum 1), (''age'', JNum 24)]
   \<and> obj_get [(''id'', JNum 1), (''age'', JNum 24)] (tpk users) = JNum 1 \<and> valid_pk (JNum 1)
   \<and> bt_get (tprimary users) (JNum 1) = Some alice
   \<and> (\<exists>t'. update users [(''id'', JNum 1), (''age'', JNum 24)] = (Inr (), t') \<and> table_inv t'
     \<and> bt_get (tprimary t') = (bt_get (tprimary users))(JNum 1 \<mapsto> [(''id'', JNum 1), (''name'', JStr ''Alice''), (''age'', JNum 24)])
     \<and> tevents t' = [UpdateEvent [(alice, [(''id'', JNum 1), (''name'', JStr ''Alice''), (''age'', JNum 24)])]])"
proof -
  have h: "table_inv users" "obj_wf [(''id'', JNum 1), (''age'', JNum 24)]"
    "obj_get [(''id'', JNum 1), (''age'', JNum 24)] (tpk users) = JNum 1" "valid_pk (JNum 1)"
    "bt_get (tprimary users) (JNum 1) = Some alice"
    by (simp_all add: example_simps)
  have p: "patch (tpk users) alice [(''id'', JNum 1), (''age'', JNum 24)]
     = [(''id'', JNum 1), (''name'', JStr ''Alice''), (''age'', JNum 24)]" by simp
  show ?thesis using Operations.update_ok [OF h] h p by simp
qed

theorem update_error_witness:
  "table_inv users \<and> obj_wf [(''id'', JNum 9)]
   \<and> fst (update users [(''id'', JNum 9)]) = Inl (UntypedError ''item not found'' (JNum 9))
   \<and> snd (update users [(''id'', JNum 9)]) = users"
proof -
  have h: "table_inv users" "obj_wf [(''id'', JNum 9)]"
    "fst (update users [(''id'', JNum 9)]) = Inl (UntypedError ''item not found'' (JNum 9))"
    by (simp_all add: example_simps update_def update_entity_def)
  show ?thesis using Operations.update_error [OF h] h by blast
qed

theorem internalUpdateMany_error_witness:
  "table_inv users \<and> list_all obj_wf [[(''id'', JNum 1), (''age'', JNum 24)], [(''id'', JNum 9)]]
   \<and> fst (internalUpdateMany users [[(''id'', JNum 1), (''age'', JNum 24)], [(''id'', JNum 9)]])
       = Inl (ItemNotFound (JNum 9))
   \<and> tevents (snd (internalUpdateMany users [[(''id'', JNum 1), (''age'', JNum 24)], [(''id'', JNum 9)]])) = []
   \<and> table_inv (snd (internalUpdateMany users [[(''id'', JNum 1), (''age'', JNum 24)], [(''id'', JNum 9)]]))"
proof -
  have h: "table_inv users" "list_all obj_wf [[(''id'', JNum 1), (''age'', JNum 24)], [(''id'', JNum 9)]]"
    "fst (internalUpdateMany users [[(''id'', JNum 1), (''age'', JNum 24)], [(''id'', JNum 9)]])
       = Inl (ItemNotFound (JNum 9))"
    by (simp_all add: example_simps internalUpdateMany_def update_entity_def set_field_def deref_def
        index_remove_def index_add_def set_index_def Let_def)
  show ?thesis using Operations.internalUpdateMany_error [OF h] h by simp
qed


theorem internalUpdateWhere_pk_modified_witness:
  "many users (Some \<lparr>qwhere = Some (FWhere age_gte_30)\<rparr>) = Inr [charlie, bob]
   \<and> bob \<in> set [charlie, bob]
   \<and> obj_get (AList.update ''id'' (JNum 7) bob) (tpk users) \<noteq> obj_get bob (tpk users)
   \<and> (\<exists>k. internalUpdateWhere users \<lparr>qwhere = Some (FWhere age_gte_30)\<rparr> (AList.update ''id'' (JNum 7))
          = (Inl (PrimaryKeyCannotBeModified k), users))"
proof -
  have h: "many users (Some \<lparr>qwhere = Some (FWhere age_gte_30)\<rparr>) = Inr [charlie, bob]"
    "bob \<in> set [charlie, bob]"
    "obj_get (AList.update ''id'' (JNum 7) bob) (tpk users) \<noteq> obj_get bob (tpk users)"
    by (simp_all add: many_def candidates_def selectWhereItems_def selectForWhere_def selectForMatcher_def
        filterWhereItems_def matchesWhere_def matcher_defs example_simps deref_def)
  show ?thesis using Operations.internalUpdateWhere_pk_modified [where cb = "AList.update ''id'' (JNum 7)", OF h] h by blast
qed

theorem internalInsert_spec_witness:
  "table_inv users_empty \<and> obj_get alice (tpk users_empty) = JNum 1 \<and> valid_pk (JNum 1)
   \<and> bt_get (tprimary users_empty) (JNum 1) = None
   \<and> (\<exists>t'. internalInsert users_empty alice = (Inr (JNum 1), t') \<and> table_inv t'
     \<and> bt_get (tprimary t') = (bt_get (tprimary users_empty))(JNum 1 \<mapsto> alice)
     \<and> tevents t' = tevents users_empty @ [InsertEvent [alice]]
     \<and> many t' (Some \<lparr>qwhere = Some (FWhere [(tpk users_empty, MVal (JNum 1))])\<rparr>) = Inr [alice])"
proof -
  have h: "table_inv users_empty" "obj_get alice (tpk users_empty) = JNum 1" "valid_pk (JNum 1)"
    "bt_get (tprimary users_empty) (JNum 1) = None"
    by (simp_all add: example_simps)
  show ?thesis using Operations.internalInsert_spec [OF h] h by blast
qed

theorem internalRemove_spec_witness:
  "table_inv users \<and> obj_get [(''id'', JNum 2)] (tpk users) = JNum 2
   \<and> bt_get (tprimary users) (JNum 2) = Some bob
   \<and> (\<exists>t'. internalRemove users [(''id'', JNum 2)] = (Inr True, t') \<and> table_inv t'
     \<and> bt_get (tprimary t') = (bt_get (tprimary users))(JNum 2 := None)
     \<and> tevents t' = tevents users @ [RemoveEvent [bob]]
     \<and> many t' (Some \<lparr>qwhere = Some (FWhere [(tpk users, MVal (JNum 2))])\<rparr>) = Inr []
     \<and> internalRemove t' [(''id'', JNum 2)] = (Inr False, dispatch (RemoveEvent []) t'))"
proof -
  have h: "table_inv users" "obj_get [(''id'', JNum 2)] (tpk users) = JNum 2"
    "bt_get (tprimary users) (JNum 2) = Some bob"
    by (simp_all add: example_simps)
  show ?thesis using Operations.internalRemove_spec [OF h] h by blast
qed


theorem analyzeWhere_min_witness:
  "age_gte_30 \<noteq> [] \<and> analyzeWhere users age_gte_30 = Min (insert MAX_SAFE_INTEGER (where_costs users age_gte_30))
   \<and> analyzeWhere users age_gte_30 = 2"
proof -
  have "analyzeWhere users age_gte_30 = 2"
    by (simp add: example_simps property_complexity_def index_complexity_def analyzeMatcher_def
        bt_keys_def bt_size_def bt_total_item_size_def analyzeWhere_def MAX_SAFE_INTEGER_def)
  then show ?thesis using Analyze.analyzeWhere_min [of age_gte_30 users] by simp
qed

theorem analyzeWhere_pk_point_witness:
  "(tpk users, MVal (JNum 1)) \<in> set [(''age'', MObj [(''$gte'', JNum 30)]), (''id'', MVal (JNum 1))]
   \<and> analyzeWhere users [(''age'', MObj [(''$gte'', JNum 30)]), (''id'', MVal (JNum 1))] = 1"
proof -
  have h: "(tpk users, MVal (JNum 1)) \<in> set [(''age'', MObj [(''$gte'', JNum 30)]), (''id'', MVal (JNum 1))]"
    by simp
  show ?thesis using Analyze.analyzeWhere_pk_point [OF h] h by blast
qed



theorem reachable_table_inv_witness:
  "reachable s1 \<and> table_inv (dtable s1)"
proof -
  have h: "reachable s1" by (rule reachable_s1)
  show ?thesis using Interleaving.reachable_table_inv [OF h] h by blast
qed


theorem internalRemoveWhere_correct_witness:
  "table_inv users \<and> age_gte_30 \<noteq> [] \<and> null_free (FWhere age_gte_30)
   \<and> list_all (filter_typed (FWhere age_gte_30)) (bt_values (tprimary users))
   \<and> (\<exists>t'. internalRemoveWhere users \<lparr>qwhere = Some (FWhere age_gte_30)\<rparr> = (Inr (), t') \<and> table_inv t'
          \<and> stored t' = {r \<in> stored users. \<not> filter_holds (FWhere age_gte_30) r})"
proof -
  have h: "table_inv users" "age_gte_30 \<noteq> []" "null_free (FWhere age_gte_30)"
    "list_all (filter_typed (FWhere age_gte_30)) (bt_values (tprimary users))"
    by (simp_all add: example_simps)
  show ?thesis using RemoveWhere.internalRemoveWhere_correct [OF h] h by blast
qed



theorem splice_intersect_single_drop_witness:
  "length (filter (\<lambda>x. obj_get x ''id'' \<notin> set (map (\<lambda>y. obj_get y ''id'') [rb])) [ra, rb]) \<le> 1
   \<and> splice_intersect ''id'' [rb] [ra, rb] = [rb]"
proof -
  have h: "length (filter (\<lambda>x. obj_get x ''id'' \<notin> set (map (\<lambda>y. obj_get y ''id'') [rb])) [ra, rb]) \<le> 1"
    by simp
  show ?thesis using Query.splice_intersect_single_drop [OF h] h by simp
qed


theorem many_sound_witness:
  "table_inv users \<and> null_free (FAnd [FWhere age_gte_30, FWhere [(''name'', MVal (JStr ''Bob''))]])
   \<and> list_all (filter_typed (FAnd [FWhere age_gte_30, FWhere [(''name'', MVal (JStr ''Bob''))]]))
       (bt_values (tprimary users))
   \<and> (\<exists>rs. many users (Some \<lparr>qwhere = Some (FAnd [FWhere age_gte_30, FWhere [(''name'', MVal (JStr ''Bob''))]])\<rparr>)
          = Inr rs
        \<and> set rs \<subseteq> {r \<in> stored users. filter_holds (FAnd [FWhere age_gte_30, FWhere [(''name'', MVal (JStr ''Bob''))]]) r})"
proof -
  have h: "table_inv users" "null_free (FAnd [FWhere age_gte_30, FWhere [(''name'', MVal (JStr ''Bob''))]])"
    "list_all (filter_typed (FAnd [FWhere age_gte_30, FWhere [(''name'', MVal (JStr ''Bob''))]]))
       (bt_values (tprimary users))"
    by (simp_all add: example_simps)
  show ?thesis using ManyCorrect.many_sound [OF h] h by blast
qed

theorem many_or_where_correct_witness:
  "table_inv users \<and> age_gte_30 \<noteq> [] \<and> [(''age'', MObj [(''$lt'', JNum 25)])] \<noteq> []
   \<and> null_free (FOr (map FWhere [age_gte_30, [(''age'', MObj [(''$lt'', JNum 25)])]]))
   \<and> list_all (filter_typed (FOr (map FWhere [age_gte_30, [(''age'', MObj [(''$lt'', JNum 25)])]])))
       (bt_values (tprimary users))
   \<and> (\<exists>rs. many users (Some \<lparr>qwhere = Some (FOr (map FWhere [age_gte_30, [(''age'', MObj [(''$lt'', JNum 25)])]]))\<rparr>)
          = Inr rs
        \<and> set rs = {r \<in> stored users. filter_holds (FOr (map FWhere [age_gte_30, [(''age'', MObj [(''$lt'', JNum 25)])]])) r})"
proof -
  have h: "table_inv users" "\<forall>w \<in> set [age_gte_30, [(''age'', MObj [(''$lt'', JNum 25)])]]. w \<noteq> []"
    "null_free (FOr (map FWhere [age_gte_30, [(''age'', MObj [(''$lt'', JNum 25)])]]))"
    "list_all (filter_typed (FOr (map FWhere [age_gte_30, [(''age'', MObj [(''$lt'', JNum 25)])]])))
       (bt_values (tprimary users))"
    by (simp_all add: example_simps)
  show ?thesis using ManyCorrect.many_or_where_correct [OF h] h by blast
qed

theorem many_pk_order_witness:
  "table_inv users \<and> map_of [(''id'', MObj [(''$gte'', JNum 2)])] (tpk users) \<noteq> None
   \<and> many users (Some \<lparr>qwhere = Some (FWhere [(''id'', MObj [(''$gte'', JNum 2)])])\<rparr>) = Inr [bob, charlie]
   \<and> sorted_wrt (<) (map (\<lambda>r. obj_get r (tpk users)) [bob, charlie])
   \<and> many users (Some \<lparr>qwhere = Some (FWhere age_gte_30)\<rparr>) = Inr [charlie, bob]"
proof -
  have h: "table_inv users" "map_of [(''id'', MObj [(''$gte'', JNum 2)])] (tpk users) \<noteq> None"
    "many users (Some \<lparr>qwhere = Some (FWhere [(''id'', MObj [(''$gte'', JNum 2)])])\<rparr>) = Inr [bob, charlie]"
    by (simp_all add: example_simps many_def candidates_def selectWhereItems_def selectForWhere_def
        selectForMatcher_def filterWhereItems_def matchesWhere_def matcher_defs)
  have idx: "many users (Some \<lparr>qwhere = Some (FWhere age_gte_30)\<rparr>) = Inr [charlie, bob]"
    by (simp add: many_def candidates_def selectWhereItems_def selectForWhere_def selectForMatcher_def
        filterWhereItems_def matchesWhere_def matcher_defs example_simps deref_def)
  show ?thesis using ManyCorrect.many_pk_order [OF h] h idx by blast
qed

end
